theory Spec2Isabelle
  imports Main "HOL-Library.Word"
begin

unbundle bit_operations_syntax

section \<open>The PCX reader of SDL\_image (\<open>src/src/IMG_pcx.c\<close>)\<close>

text \<open>
  The file has two entry points, \<open>IMG_isPCX\<close> (the probe) and \<open>IMG_LoadPCX_IO\<close>
  (the decoder).  Both work on an \<open>SDL_IOStream *\<close>.  Bytes are \<open>8 word\<close>, the
  \<open>Sint16\<close> header fields are \<open>16 word\<close> read through \<open>sint\<close>, and C \<open>int\<close>
  values are HOL integers wherever the header's ranges exclude overflow.
\<close>

type_synonym u8 = "8 word"
type_synonym s16 = "16 word"

subsection \<open>The byte stream\<close>

text \<open>
  \<open>SDL_IOStream\<close> belongs to the SDL library, not to this file.  It is taken here as an
  in-memory seekable stream: the bytes, and a cursor.  Reading returns the bytes that are
  available (at most the number asked for) and advances the cursor by as many; seeking
  clamps the new cursor to the stream, as SDL's memory streams do.  The decoder never
  writes to the stream.  A \<open>NULL\<close> handle is \<open>None\<close>.
\<close>

record iostream =
  data :: "u8 list"
  pos :: nat

datatype whence = SDL_IO_SEEK_SET | SDL_IO_SEEK_CUR | SDL_IO_SEEK_END

definition SDL_TellIO :: "iostream \<Rightarrow> int" where
  "SDL_TellIO s = int (pos s)"

definition SDL_SeekIO :: "iostream \<Rightarrow> int \<Rightarrow> whence \<Rightarrow> iostream" where
  "SDL_SeekIO s offset wh =
     (let base = (case wh of
                    SDL_IO_SEEK_SET \<Rightarrow> 0
                  | SDL_IO_SEEK_CUR \<Rightarrow> int (pos s)
                  | SDL_IO_SEEK_END \<Rightarrow> int (length (data s)));
          newpos = base + offset
      in s\<lparr>pos := nat (max 0 (min (int (length (data s))) newpos))\<rparr>)"

definition SDL_ReadIO :: "iostream \<Rightarrow> nat \<Rightarrow> u8 list \<times> iostream" where
  "SDL_ReadIO s n =
     (let got = take n (drop (pos s) (data s))
      in (got, s\<lparr>pos := pos s + length got\<rparr>))"

text \<open>A stream whose cursor lies inside its bytes (every stream SDL hands out).\<close>

definition stream_ok :: "iostream \<Rightarrow> bool" where
  "stream_ok s \<longleftrightarrow> pos s \<le> length (data s)"

subsection \<open>The header\<close>

text \<open>
  \<open>struct PCXheader\<close>: 128 bytes, every 16-bit field at an even offset, so the struct
  has no padding and \<open>sizeof(pcxh) = 128\<close>.  \<open>SDL_Swap16LE\<close> gives the value of the
  field's two bytes read as little-endian, whatever the host; the code applies it to
  \<open>Xmin\<close>, \<open>Ymin\<close>, \<open>Xmax\<close>, \<open>Ymax\<close> and \<open>BytesPerLine\<close>.  The other 16-bit fields are
  never read by the code; they are shown as a little-endian host sees them.
\<close>

record PCXheader =
  Manufacturer :: u8
  Version :: u8
  Encoding :: u8
  BitsPerPixel :: u8
  Xmin :: s16
  Ymin :: s16
  Xmax :: s16
  Ymax :: s16
  HDpi :: s16
  VDpi :: s16
  Colormap :: "u8 list"
  Reserved :: u8
  NPlanes :: u8
  BytesPerLine :: s16
  PaletteInfo :: s16
  HscreenSize :: s16
  VscreenSize :: s16
  Filler :: "u8 list"

definition sizeof_pcxh :: nat where
  "sizeof_pcxh = 128"

definition le16 :: "u8 \<Rightarrow> u8 \<Rightarrow> s16" where
  "le16 lo hi = (ucast lo) OR (push_bit 8 (ucast hi))"

definition read_header :: "u8 list \<Rightarrow> PCXheader" where
  "read_header b =
     \<lparr> Manufacturer = b ! 0, Version = b ! 1, Encoding = b ! 2, BitsPerPixel = b ! 3,
       Xmin = le16 (b ! 4) (b ! 5), Ymin = le16 (b ! 6) (b ! 7),
       Xmax = le16 (b ! 8) (b ! 9), Ymax = le16 (b ! 10) (b ! 11),
       HDpi = le16 (b ! 12) (b ! 13), VDpi = le16 (b ! 14) (b ! 15),
       Colormap = take 48 (drop 16 b),
       Reserved = b ! 64, NPlanes = b ! 65,
       BytesPerLine = le16 (b ! 66) (b ! 67),
       PaletteInfo = le16 (b ! 68) (b ! 69),
       HscreenSize = le16 (b ! 70) (b ! 71),
       VscreenSize = le16 (b ! 72) (b ! 73),
       Filler = take 54 (drop 74 b) \<rparr>"

subsection \<open>\<open>IMG_isPCX\<close>\<close>

definition ZSoft_Manufacturer :: u8 where "ZSoft_Manufacturer = 10"
definition PC_Paintbrush_Version :: u8 where "PC_Paintbrush_Version = 5"
definition PCX_Uncompressed_Encoding :: u8 where "PCX_Uncompressed_Encoding = 0"
definition PCX_RunLength_Encoding :: u8 where "PCX_RunLength_Encoding = 1"

definition IMG_isPCX :: "iostream option \<Rightarrow> bool \<times> iostream option" where
  "IMG_isPCX src =
     (case src of
        None \<Rightarrow> (False, None)
      | Some s \<Rightarrow>
          (let start = SDL_TellIO s;
               (got, s1) = SDL_ReadIO s sizeof_pcxh;
               is_PCX =
                 (if length got = sizeof_pcxh then
                    (let pcxh = read_header got
                     in Manufacturer pcxh = ZSoft_Manufacturer \<and>
                        Version pcxh = PC_Paintbrush_Version \<and>
                        (Encoding pcxh = PCX_RunLength_Encoding \<or>
                         Encoding pcxh = PCX_Uncompressed_Encoding))
                  else False);
               s2 = SDL_SeekIO s1 start SDL_IO_SEEK_SET
           in (is_PCX, Some s2)))"

subsection \<open>The SDL objects the decoder allocates\<close>

text \<open>
  \<open>SDL_CreateSurface\<close>, \<open>SDL_CreateSurfacePalette\<close>, \<open>SDL_calloc\<close> and their
  counterparts are SDL's, too.  What the decoder can see of them is modelled: whether an
  allocation succeeds (decided by the environment, the three flags of \<open>world\<close>), how
  many surfaces and scratch buffers are live, and SDL's error message.
  \<open>SDL_CreateSurface\<close> refuses a negative width or height, rounds the pitch up to a
  multiple of four bytes and clears the pixels; a surface with no pixels
  (\<open>w = 0\<close> or \<open>h = 0\<close>) has no pixel storage.  No allocator satisfies a request of more
  than \<open>PTRDIFF_MAX\<close> bytes.  A new palette of an 8-bit surface has 256 white entries.
\<close>

record world =
  sdl_error :: string
  live_surfaces :: nat
  live_buffers :: nat
  surface_mem :: bool
  calloc_mem :: bool
  palette_mem :: bool

datatype pixel_format = SDL_PIXELFORMAT_INDEX8 | SDL_PIXELFORMAT_RGB24

type_synonym SDL_Color = "u8 \<times> u8 \<times> u8"

record SDL_Palette =
  ncolors :: int
  colors :: "SDL_Color list"

record SDL_Surface =
  format :: pixel_format
  w :: int
  h :: int
  pitch :: int
  pixels :: "u8 list"
  palette :: "SDL_Palette option"

definition SDL_SetError :: "string \<Rightarrow> world \<Rightarrow> world" where
  "SDL_SetError msg wd = wd\<lparr>sdl_error := msg\<rparr>"

definition bytes_per_pixel :: "pixel_format \<Rightarrow> int" where
  "bytes_per_pixel f = (case f of SDL_PIXELFORMAT_INDEX8 \<Rightarrow> 1 | SDL_PIXELFORMAT_RGB24 \<Rightarrow> 3)"

definition SDL_CreateSurface ::
  "int \<Rightarrow> int \<Rightarrow> pixel_format \<Rightarrow> world \<Rightarrow> SDL_Surface option \<times> world" where
  "SDL_CreateSurface width height f wd =
     (if width < 0 then (None, SDL_SetError ''Parameter 'width' is invalid'' wd)
      else if height < 0 then (None, SDL_SetError ''Parameter 'height' is invalid'' wd)
      else if \<not> surface_mem wd then (None, SDL_SetError ''Out of memory'' wd)
      else
        (let p = ((width * bytes_per_pixel f + 3) div 4) * 4
         in (Some \<lparr> format = f, w = width, h = height, pitch = p,
                     pixels = (if width \<noteq> 0 \<and> height \<noteq> 0
                               then replicate (nat (p * height)) 0 else []),
                     palette = None \<rparr>,
             wd\<lparr>live_surfaces := live_surfaces wd + 1\<rparr>)))"

definition SDL_DestroySurface :: "SDL_Surface \<Rightarrow> world \<Rightarrow> world" where
  "SDL_DestroySurface surface wd = wd\<lparr>live_surfaces := live_surfaces wd - 1\<rparr>"

definition SDL_CreateSurfacePalette ::
  "SDL_Surface \<Rightarrow> world \<Rightarrow> SDL_Palette option \<times> world" where
  "SDL_CreateSurfacePalette surface wd =
     (if palette_mem wd
      then (Some \<lparr> ncolors = 256, colors = replicate 256 (0xFF, 0xFF, 0xFF) \<rparr>, wd)
      else (None, SDL_SetError ''Out of memory'' wd))"

definition PTRDIFF_MAX :: int where
  "PTRDIFF_MAX = 2 ^ 63 - 1"

text \<open>The conversion of an \<open>int\<close> to the 64-bit \<open>size_t\<close>.\<close>

definition size_t :: "int \<Rightarrow> int" where
  "size_t i = i mod 2 ^ 64"

definition SDL_calloc :: "int \<Rightarrow> world \<Rightarrow> u8 list option \<times> world" where
  "SDL_calloc n wd =
     (if n > PTRDIFF_MAX \<or> \<not> calloc_mem wd then (None, wd)
      else (Some (replicate (nat n) 0), wd\<lparr>live_buffers := live_buffers wd + 1\<rparr>))"

definition SDL_free :: "u8 list option \<Rightarrow> world \<Rightarrow> world" where
  "SDL_free p wd =
     (case p of None \<Rightarrow> wd | Some b \<Rightarrow> wd\<lparr>live_buffers := live_buffers wd - 1\<rparr>)"

subsection \<open>Memory accesses\<close>

text \<open>
  The scratch buffer \<open>buf\<close> and the pixel storage are byte arrays addressed through
  pointers computed from header fields.  An access is modelled with its bounds: outside
  the array it is \<open>None\<close>, which stands for the undefined behaviour of the C program.
\<close>

definition load :: "u8 list \<Rightarrow> int \<Rightarrow> u8 option" where
  "load m i = (if 0 \<le> i \<and> i < int (length m) then Some (m ! nat i) else None)"

definition store :: "u8 list \<Rightarrow> int \<Rightarrow> u8 \<Rightarrow> u8 list option" where
  "store m i v = (if 0 \<le> i \<and> i < int (length m) then Some (m[nat i := v]) else None)"

text \<open>
  The state of the row loop: the stream, the scratch buffer, the pixels written so far,
  and the two run-length variables \<open>count\<close> and \<open>ch\<close>, which are declared outside the
  loop.  A step ends in \<open>Ok\<close> with the new state, or in \<open>Err msg\<close> (the code sets
  \<open>error = msg\<close> and jumps to \<open>done\<close>) with the state at the jump, or in undefined
  behaviour: \<open>Fault\<close> is an access outside an array, \<open>Overflow\<close> is \<open>count--\<close> at
  \<open>INT_MIN\<close>.
\<close>

record decoder =
  src :: iostream
  buf :: "u8 list"
  pix :: "u8 list"
  count :: int
  ch :: u8

datatype 'a result = Ok 'a | Err string 'a | Fault | Overflow

definition INT_MIN :: int where
  "INT_MIN = - (2 ^ 31)"

subsection \<open>The scanline decoder\<close>

text \<open>Raw rows: \<open>SDL_ReadIO(src, buf, bpl) != bpl\<close>.\<close>

definition read_raw :: "nat \<Rightarrow> decoder \<Rightarrow> decoder result" where
  "read_raw bpl st =
     (if length (buf st) < bpl then Fault
      else
        (let (got, s1) = SDL_ReadIO (src st) bpl;
             st1 = st\<lparr>src := s1, buf := got @ drop (length got) (buf st)\<rparr>
         in if length got \<noteq> bpl then Err ''file truncated'' st1 else Ok st1))"

text \<open>The body of \<open>if ( !count ) { ... }\<close>: fetch the next control byte.\<close>

definition rle_fetch :: "decoder \<Rightarrow> decoder result" where
  "rle_fetch st =
     (if count st = 0 then
        (let (got, s1) = SDL_ReadIO (src st) 1
         in if length got \<noteq> 1 then Err ''file truncated'' (st\<lparr>src := s1\<rparr>)
            else
              (let c = hd got
               in if c < 0xc0 then Ok (st\<lparr>src := s1, ch := c, count := 1\<rparr>)
                  else
                    (let n = uint c - 0xc0;
                         (got2, s2) = SDL_ReadIO s1 1
                     in if length got2 \<noteq> 1
                        then Err ''file truncated'' (st\<lparr>src := s2, ch := c, count := n\<rparr>)
                        else Ok (st\<lparr>src := s2, ch := hd got2, count := n\<rparr>))))
      else Ok st)"

text \<open>\<open>for ( i = 0; i < bpl; i++ ) { ...; buf[i] = ch; count--; }\<close>\<close>

function rle_loop :: "nat \<Rightarrow> nat \<Rightarrow> decoder \<Rightarrow> decoder result" where
  "rle_loop i bpl st =
     (if i < bpl then
        (case rle_fetch st of
           Ok st1 \<Rightarrow>
             (case store (buf st1) (int i) (ch st1) of
                None \<Rightarrow> Fault
              | Some b \<Rightarrow>
                  if count st1 = INT_MIN then Overflow
                  else rle_loop (i + 1) bpl (st1\<lparr>buf := b, count := count st1 - 1\<rparr>))
         | Err e st1 \<Rightarrow> Err e st1
         | Fault \<Rightarrow> Fault
         | Overflow \<Rightarrow> Overflow)
      else Ok st)"
  by pat_completeness auto
termination
  by (relation "measure (\<lambda>(i, bpl, st). bpl - i)") auto

definition decode_scanline :: "PCXheader \<Rightarrow> nat \<Rightarrow> decoder \<Rightarrow> decoder result" where
  "decode_scanline pcxh bpl st =
     (if Encoding pcxh = 0 then read_raw bpl st else rle_loop 0 bpl st)"

subsection \<open>The pixel reconstructor\<close>

text \<open>
  Pointers into \<open>buf\<close> and into the current row are offsets: \<open>innerSrc\<close> from \<open>buf\<close>,
  \<open>x\<close> and \<open>dst\<close> from \<open>row\<close>, and \<open>row\<close> itself from \<open>surface->pixels\<close>.

  Planes of one bit per pixel, innermost loop:
  \<open>for( k = 7; k >= 0; k-- ) { bit = (byte >> k) & 1; if (j * 8 + k >= width) continue;
  row[x++] |= bit << plane; }\<close>
\<close>

function expand_bits ::
  "int \<Rightarrow> nat \<Rightarrow> int \<Rightarrow> u8 \<Rightarrow> int \<Rightarrow> int \<Rightarrow> int \<Rightarrow> u8 list \<Rightarrow> (int \<times> u8 list) option" where
  "expand_bits width plane j byte row k x px =
     (if k \<ge> 0 then
        (let bit = (drop_bit (nat k) byte) AND 1
         in if j * 8 + k \<ge> width then expand_bits width plane j byte row (k - 1) x px
            else
              (case load px (row + x) of
                 None \<Rightarrow> None
               | Some old \<Rightarrow>
                   (case store px (row + x) (old OR push_bit plane bit) of
                      None \<Rightarrow> None
                    | Some px' \<Rightarrow>
                        expand_bits width plane j byte row (k - 1) (x + 1) px')))
      else Some (x, px))"
  by pat_completeness auto
termination
  by (relation "measure (\<lambda>(width, plane, j, byte, row, k, x, px). nat (k + 1))") auto

text \<open>\<open>for( j = 0; j < pcxh.BytesPerLine; j++ ) { byte = *innerSrc++; ... }\<close>\<close>

function expand_bytes ::
  "int \<Rightarrow> nat \<Rightarrow> int \<Rightarrow> u8 list \<Rightarrow> int \<Rightarrow> int \<Rightarrow> int \<Rightarrow> int \<Rightarrow> u8 list
     \<Rightarrow> (int \<times> u8 list) option" where
  "expand_bytes width plane bytesperline bf row j innerSrc x px =
     (if j < bytesperline then
        (case load bf innerSrc of
           None \<Rightarrow> None
         | Some byte \<Rightarrow>
             (case expand_bits width plane j byte row 7 x px of
                None \<Rightarrow> None
              | Some (x', px') \<Rightarrow>
                  expand_bytes width plane bytesperline bf row (j + 1) (innerSrc + 1) x' px'))
      else Some (innerSrc, px))"
  by pat_completeness auto
termination
  by (relation "measure (\<lambda>(width, plane, bytesperline, bf, row, j, innerSrc, x, px).
                  nat (bytesperline - j))") auto

text \<open>\<open>for ( plane = 0; plane < pcxh.NPlanes; plane++ ) { int j, k, x = 0; ... }\<close>\<close>

function expand_planes ::
  "int \<Rightarrow> nat \<Rightarrow> int \<Rightarrow> u8 list \<Rightarrow> int \<Rightarrow> nat \<Rightarrow> int \<Rightarrow> u8 list \<Rightarrow> u8 list option" where
  "expand_planes width nplanes bytesperline bf row plane innerSrc px =
     (if plane < nplanes then
        (case expand_bytes width plane bytesperline bf row 0 innerSrc 0 px of
           None \<Rightarrow> None
         | Some (innerSrc', px') \<Rightarrow>
             expand_planes width nplanes bytesperline bf row (plane + 1) innerSrc' px')
      else Some px)"
  by pat_completeness auto
termination
  by (relation "measure (\<lambda>(width, nplanes, bytesperline, bf, row, plane, innerSrc, px).
                  nplanes - plane)") auto

text \<open>\<open>SDL_memcpy(row, buf, SDL_min((size_t)width, bpl))\<close>\<close>

definition copy_row :: "int \<Rightarrow> nat \<Rightarrow> u8 list \<Rightarrow> int \<Rightarrow> u8 list \<Rightarrow> u8 list option" where
  "copy_row width bpl bf row px =
     (let n = nat (min (size_t width) (int bpl))
      in if n = 0 then Some px
         else if n \<le> length bf \<and> 0 \<le> row \<and> nat row + n \<le> length px
         then Some (take (nat row) px @ take n bf @ drop (nat row + n) px)
         else None)"

text \<open>
  Three planes of one byte per pixel, inner loop:
  \<open>for ( x = 0; x < width; x++ ) { if ( (innerSrc + x) >= end1 || dst >= end2 ) { error =
  "decoding out of bounds (corrupt?)"; goto done; } *dst = innerSrc[x]; dst += pcxh.NPlanes; }\<close>
  with \<open>end1 = buf + bpl\<close> and \<open>end2 = row + surface->pitch\<close>.
\<close>

function deinterlace_plane ::
  "int \<Rightarrow> int \<Rightarrow> int \<Rightarrow> int \<Rightarrow> u8 list \<Rightarrow> int \<Rightarrow> int \<Rightarrow> int \<Rightarrow> int \<Rightarrow> u8 list
     \<Rightarrow> u8 list result" where
  "deinterlace_plane width nplanes end1 end2 bf row innerSrc x dst px =
     (if x < width then
        (if innerSrc + x \<ge> end1 \<or> dst \<ge> end2
         then Err ''decoding out of bounds (corrupt?)'' px
         else
           (case load bf (innerSrc + x) of
              None \<Rightarrow> Fault
            | Some v \<Rightarrow>
                (case store px (row + dst) v of
                   None \<Rightarrow> Fault
                 | Some px' \<Rightarrow>
                     deinterlace_plane width nplanes end1 end2 bf row innerSrc
                       (x + 1) (dst + nplanes) px')))
      else Ok px)"
  by pat_completeness auto
termination
  by (relation "measure (\<lambda>(width, nplanes, end1, end2, bf, row, innerSrc, x, dst, px).
                  nat (width - x))") auto

text \<open>
  \<open>for ( plane = 0; plane < pcxh.NPlanes; plane++ ) { Uint8 *dst = row + plane; ...;
  innerSrc += pcxh.BytesPerLine; }\<close>
\<close>

function deinterlace ::
  "int \<Rightarrow> int \<Rightarrow> int \<Rightarrow> int \<Rightarrow> int \<Rightarrow> u8 list \<Rightarrow> int \<Rightarrow> int \<Rightarrow> int \<Rightarrow> u8 list
     \<Rightarrow> u8 list result" where
  "deinterlace width nplanes bytesperline end1 end2 bf row plane innerSrc px =
     (if plane < nplanes then
        (case deinterlace_plane width nplanes end1 end2 bf row innerSrc 0 plane px of
           Ok px' \<Rightarrow>
             deinterlace width nplanes bytesperline end1 end2 bf row (plane + 1)
               (innerSrc + bytesperline) px'
         | Err e px' \<Rightarrow> Err e px'
         | Fault \<Rightarrow> Fault
         | Overflow \<Rightarrow> Overflow)
      else Ok px)"
  by pat_completeness auto
termination
  by (relation "measure (\<lambda>(width, nplanes, bytesperline, end1, end2, bf, row, plane,
                  innerSrc, px). nat (nplanes - plane))") auto

text \<open>The three layouts of one row, chosen by \<open>src_bits\<close>.\<close>

definition reconstruct_row ::
  "PCXheader \<Rightarrow> int \<Rightarrow> int \<Rightarrow> nat \<Rightarrow> int \<Rightarrow> int \<Rightarrow> decoder \<Rightarrow> decoder result" where
  "reconstruct_row pcxh width src_bits bpl pitch' row st =
     (if src_bits \<le> 4 then
        (case expand_planes width (unat (NPlanes pcxh)) (sint (BytesPerLine pcxh))
                (buf st) row 0 0 (pix st) of
           None \<Rightarrow> Fault
         | Some px \<Rightarrow> Ok (st\<lparr>pix := px\<rparr>))
      else if src_bits = 8 then
        (case copy_row width bpl (buf st) row (pix st) of
           None \<Rightarrow> Fault
         | Some px \<Rightarrow> Ok (st\<lparr>pix := px\<rparr>))
      else if src_bits = 24 then
        (case deinterlace width (uint (NPlanes pcxh)) (sint (BytesPerLine pcxh))
                (int bpl) pitch' (buf st) row 0 0 (pix st) of
           Ok px \<Rightarrow> Ok (st\<lparr>pix := px\<rparr>)
         | Err e px \<Rightarrow> Err e (st\<lparr>pix := px\<rparr>)
         | Fault \<Rightarrow> Fault
         | Overflow \<Rightarrow> Overflow)
      else Ok st)"

text \<open>
  \<open>for ( y=0; y<surface->h; ++y ) { decode a scan line; reconstruct the row;
  row += surface->pitch; }\<close>
\<close>

function decode_rows ::
  "PCXheader \<Rightarrow> int \<Rightarrow> int \<Rightarrow> nat \<Rightarrow> int \<Rightarrow> int \<Rightarrow> int \<Rightarrow> int \<Rightarrow> decoder
     \<Rightarrow> decoder result" where
  "decode_rows pcxh width src_bits bpl pitch' height y row st =
     (if y < height then
        (case decode_scanline pcxh bpl st of
           Ok st1 \<Rightarrow>
             (case reconstruct_row pcxh width src_bits bpl pitch' row st1 of
                Ok st2 \<Rightarrow>
                  decode_rows pcxh width src_bits bpl pitch' height (y + 1) (row + pitch') st2
              | Err e st2 \<Rightarrow> Err e st2
              | Fault \<Rightarrow> Fault
              | Overflow \<Rightarrow> Overflow)
         | Err e st1 \<Rightarrow> Err e st1
         | Fault \<Rightarrow> Fault
         | Overflow \<Rightarrow> Overflow)
      else Ok st)"
  by pat_completeness auto
termination
  by (relation "measure (\<lambda>(pcxh, width, src_bits, bpl, pitch', height, y, row, st).
                  nat (height - y))") auto

subsection \<open>The palette\<close>

text \<open>
  \<open>do { if (SDL_ReadIO(src, &pch, 1) != 1) { SDL_SeekIO(src, -768, SDL_IO_SEEK_END);
  break; } } while ( pch != 12 );\<close>
\<close>

function find_palette :: "iostream \<Rightarrow> iostream" where
  "find_palette s =
     (case SDL_ReadIO s 1 of
        (got, s1) \<Rightarrow>
          if length got \<noteq> 1 then SDL_SeekIO s1 (- 768) SDL_IO_SEEK_END
          else if hd got \<noteq> 12 then find_palette s1
          else s1)"
  by pat_completeness auto
termination
  by (relation "measure (\<lambda>s. length (data s) - pos s)")
     (auto simp: SDL_ReadIO_def split: if_splits)

text \<open>
  \<open>for ( i = 0; i < n; i++ ) { colors[i].r = cm[i * 3 + 0]; colors[i].g = cm[i * 3 + 1];
  colors[i].b = cm[i * 3 + 2]; }\<close>, where \<open>n\<close> is at most the 256 entries of the palette
  and \<open>cm\<close> holds at least \<open>3 * n\<close> bytes in both uses.
\<close>

function set_colors :: "u8 list \<Rightarrow> int \<Rightarrow> int \<Rightarrow> SDL_Color list \<Rightarrow> SDL_Color list" where
  "set_colors cm n i cs =
     (if i < n then
        set_colors cm n (i + 1)
          (cs[nat i := (cm ! nat (i * 3 + 0), cm ! nat (i * 3 + 1), cm ! nat (i * 3 + 2))])
      else cs)"
  by pat_completeness auto
termination
  by (relation "measure (\<lambda>(cm, n, i, cs). nat (n - i))") auto

text \<open>
  The block \<open>if ( bits == 8 ) { ... }\<close>.  The result is the value of \<open>error\<close> at its
  end, the surface with its palette, the stream and the world.
\<close>

definition pcx_palette ::
  "PCXheader \<Rightarrow> int \<Rightarrow> SDL_Surface \<Rightarrow> iostream \<Rightarrow> world
     \<Rightarrow> string option \<times> SDL_Surface \<times> iostream \<times> world" where
  "pcx_palette pcxh src_bits surface s wd =
     (case SDL_CreateSurfacePalette surface wd of
        (None, wd1) \<Rightarrow> (Some ''Couldn't create palette'', surface, s, wd1)
      | (Some pal, wd1) \<Rightarrow>
          (let nc0 = 2 ^ nat src_bits;
               nc = (if nc0 > ncolors pal then ncolors pal else nc0);
               pal1 = pal\<lparr>ncolors := nc\<rparr>
           in if src_bits = 8 then
                (let s1 = find_palette s;
                     (colormap, s2) = SDL_ReadIO s1 768
                 in if length colormap \<noteq> 768
                    then (Some ''file truncated'', surface\<lparr>palette := Some pal1\<rparr>, s2, wd1)
                    else (None,
                          surface\<lparr>palette :=
                            Some (pal1\<lparr>colors := set_colors colormap 256 0 (colors pal1)\<rparr>)\<rparr>,
                          s2, wd1))
              else (None,
                    surface\<lparr>palette :=
                      Some (pal1\<lparr>colors := set_colors (Colormap pcxh) nc 0 (colors pal1)\<rparr>)\<rparr>,
                    s, wd1)))"

subsection \<open>\<open>IMG_LoadPCX_IO\<close>\<close>

text \<open>
  The label \<open>done\<close>: free \<open>buf\<close>; if \<open>error\<close> is set, seek back to \<open>start\<close>, destroy the
  surface and set SDL's error; return \<open>surface\<close>.
\<close>

definition at_done ::
  "string option \<Rightarrow> SDL_Surface option \<Rightarrow> u8 list option \<Rightarrow> iostream \<Rightarrow> int \<Rightarrow> world
     \<Rightarrow> SDL_Surface option \<times> iostream option \<times> world" where
  "at_done error surface bf s start wd =
     (let wd1 = SDL_free bf wd
      in case error of
           None \<Rightarrow> (surface, Some s, wd1)
         | Some msg \<Rightarrow>
             (let s1 = SDL_SeekIO s start SDL_IO_SEEK_SET;
                  wd2 = (case surface of
                           None \<Rightarrow> wd1
                         | Some sf \<Rightarrow> SDL_DestroySurface sf wd1)
              in (None, Some s1, SDL_SetError msg wd2)))"

text \<open>The choice of the surface format; \<open>None\<close> is the branch \<open>unsupported PCX format\<close>.\<close>

definition pcx_format :: "PCXheader \<Rightarrow> (int \<times> pixel_format) option" where
  "pcx_format pcxh =
     (if (BitsPerPixel pcxh = 1 \<and> NPlanes pcxh \<ge> 1 \<and> NPlanes pcxh \<le> 4)
         \<or> (BitsPerPixel pcxh = 8 \<and> NPlanes pcxh = 1)
      then Some (8, SDL_PIXELFORMAT_INDEX8)
      else if BitsPerPixel pcxh = 8 \<and> NPlanes pcxh = 3
      then Some (24, SDL_PIXELFORMAT_RGB24)
      else None)"

text \<open>
  The decoder from the point where the header has been read and byte-swapped.  \<open>None\<close>
  is undefined behaviour; otherwise the result is the returned surface (\<open>None\<close> for
  \<open>NULL\<close>), the stream and the world as the call leaves them.
\<close>

definition load_pcx ::
  "PCXheader \<Rightarrow> int \<Rightarrow> iostream \<Rightarrow> world
     \<Rightarrow> (SDL_Surface option \<times> iostream option \<times> world) option" where
  "load_pcx pcxh start s wd =
     (let width = (sint (Xmax pcxh) - sint (Xmin pcxh)) + 1;
          height = (sint (Ymax pcxh) - sint (Ymin pcxh)) + 1;
          src_bits = uint (BitsPerPixel pcxh) * uint (NPlanes pcxh)
      in case pcx_format pcxh of
           None \<Rightarrow> Some (at_done (Some ''unsupported PCX format'') None None s start wd)
         | Some (bits, fmt) \<Rightarrow>
             (case SDL_CreateSurface width height fmt wd of
                (None, wd1) \<Rightarrow> Some (at_done None None None s start wd1)
              | (Some surface, wd1) \<Rightarrow>
                  (let bpl = size_t (uint (NPlanes pcxh) * sint (BytesPerLine pcxh))
                   in case SDL_calloc bpl wd1 of
                        (None, wd2) \<Rightarrow>
                          Some (at_done (Some ''Out of memory'') (Some surface) None s start wd2)
                      | (Some b, wd2) \<Rightarrow>
                          (case decode_rows pcxh width src_bits (nat bpl) (pitch surface)
                                  (h surface)
                                  0 0
                                  \<lparr> src = s, buf = b, pix = pixels surface,
                                    count = 0, ch = 0 \<rparr> of
                             Fault \<Rightarrow> None
                           | Overflow \<Rightarrow> None
                           | Err e st \<Rightarrow>
                               Some (at_done (Some e) (Some (surface\<lparr>pixels := pix st\<rparr>))
                                       (Some (buf st)) (src st) start wd2)
                           | Ok st \<Rightarrow>
                               (let surface1 = surface\<lparr>pixels := pix st\<rparr>
                                in if bits = 8 then
                                     (case pcx_palette pcxh src_bits surface1 (src st) wd2 of
                                        (error, surface2, s2, wd3) \<Rightarrow>
                                          Some (at_done error (Some surface2) (Some (buf st))
                                                  s2 start wd3))
                                   else Some (at_done None (Some surface1) (Some (buf st))
                                                (src st) start wd2))))))"

definition IMG_LoadPCX_IO ::
  "iostream option \<Rightarrow> world \<Rightarrow> (SDL_Surface option \<times> iostream option \<times> world) option" where
  "IMG_LoadPCX_IO src' wd =
     (case src' of
        None \<Rightarrow> Some (None, None, wd)
      | Some s \<Rightarrow>
          (let start = SDL_TellIO s;
               (got, s1) = SDL_ReadIO s sizeof_pcxh
           in if length got \<noteq> sizeof_pcxh
              then Some (at_done (Some ''file truncated'') None None s1 start wd)
              else load_pcx (read_header got) start s1 wd))"

subsection \<open>Callers and sample inputs\<close>

text \<open>A caller that probes the same handle \<open>n\<close> times in succession, keeping the answers.\<close>

fun probe_times :: "nat \<Rightarrow> iostream option \<Rightarrow> bool list \<times> iostream option" where
  "probe_times 0 src' = ([], src')"
| "probe_times (Suc n) src' =
     (let (b, src1) = IMG_isPCX src'; (bs, src2) = probe_times n src1 in (b # bs, src2))"

text \<open>
  The 128 bytes of a header on disk, with manufacturer 10 and version 5, from the fields
  the decoder reads; all other bytes are zero.
\<close>

definition lo_hi :: "s16 \<Rightarrow> u8 list" where
  "lo_hi v = [ucast v, ucast (drop_bit 8 v)]"

definition header_bytes ::
  "u8 \<Rightarrow> u8 \<Rightarrow> s16 \<Rightarrow> s16 \<Rightarrow> s16 \<Rightarrow> s16 \<Rightarrow> u8 \<Rightarrow> s16 \<Rightarrow> u8 list" where
  "header_bytes enc bpp xmin ymin xmax ymax nplanes bytesperline =
     [10, 5, enc, bpp] @ lo_hi xmin @ lo_hi ymin @ lo_hi xmax @ lo_hi ymax @
     replicate 4 0 @ replicate 48 0 @ [0, nplanes] @ lo_hi bytesperline @ replicate 60 0"

text \<open>A world in which every allocation succeeds and nothing is allocated yet.\<close>

definition world0 :: world where
  "world0 = \<lparr> sdl_error = [], live_surfaces = 0, live_buffers = 0,
              surface_mem = True, calloc_mem = True, palette_mem = True \<rparr>"

text \<open>
  768 bytes read as 256 triples of red, green and blue, the way the specification words
  it; the loop of the code (\<open>set_colors\<close>) is compared with it.
\<close>

definition rgb_triples :: "u8 list \<Rightarrow> SDL_Color list" where
  "rgb_triples cm = map (\<lambda>i. (cm ! (3 * i), cm ! (3 * i + 1), cm ! (3 * i + 2))) [0..<256]"

text \<open>A palette block: 256 times the colour (1, 2, 3).\<close>

definition sample_palette :: "u8 list" where
  "sample_palette = concat (replicate 256 [1, 2, 3])"

text \<open>
  What a caller sees of a decode: the pixels of the returned surface, the cursor of the
  stream, SDL's error message, and the numbers of live surfaces and scratch buffers.
\<close>

definition outcome ::
  "(SDL_Surface option \<times> iostream option \<times> world) option
     \<Rightarrow> (u8 list option \<times> nat option \<times> string \<times> nat \<times> nat) option" where
  "outcome r =
     map_option (\<lambda>(sf, s, wd).
        (map_option pixels sf, map_option pos s, sdl_error wd, live_surfaces wd, live_buffers wd)) r"

section \<open>Properties\<close>

text \<open>The loops are unfolded by hand, one iteration at a time.\<close>

declare rle_loop.simps [simp del] expand_bits.simps [simp del] expand_bytes.simps [simp del]
  expand_planes.simps [simp del] deinterlace_plane.simps [simp del] deinterlace.simps [simp del]
  decode_rows.simps [simp del] find_palette.simps [simp del] set_colors.simps [simp del]

subsection \<open>The probe\<close>

lemma seek_back:
  "stream_ok s \<Longrightarrow> SDL_SeekIO (snd (SDL_ReadIO s n)) (SDL_TellIO s) SDL_IO_SEEK_SET = s"
  by (simp add: SDL_SeekIO_def SDL_ReadIO_def SDL_TellIO_def stream_ok_def Let_def)

lemma isPCX_stream: "stream_ok s \<Longrightarrow> snd (IMG_isPCX (Some s)) = Some s"
  using seek_back[of s sizeof_pcxh]
  by (auto simp: IMG_isPCX_def Let_def split: prod.splits)

lemma isPCX_short:
  "length (data s) - pos s < sizeof_pcxh \<Longrightarrow> \<not> fst (IMG_isPCX (Some s))"
  by (simp add: IMG_isPCX_def Let_def SDL_ReadIO_def split: prod.splits)

lemma probe_times_same:
  "stream_ok s \<Longrightarrow> probe_times n (Some s) = (replicate n (fst (IMG_isPCX (Some s))), Some s)"
proof (induction n)
  case 0
  then show ?case by simp
next
  case (Suc n)
  from Suc.prems have "snd (IMG_isPCX (Some s)) = Some s" by (rule isPCX_stream)
  then have "IMG_isPCX (Some s) = (fst (IMG_isPCX (Some s)), Some s)"
    by (metis prod.collapse)
  with Suc show ?case by (auto simp: Let_def split: prod.splits)
qed

text \<open>
  Claim C8.  On a stream whose cursor lies within its bytes, \<open>IMG_isPCX\<close> hands the
  stream back exactly as it got it, whether the header matches or not; with fewer than
  128 bytes left it answers \<open>false\<close>; and \<open>n\<close> calls in succession give \<open>n\<close> times the
  same answer and leave the stream as it was.
\<close>

theorem probe_no_side_effect:
  assumes "stream_ok s"
  shows "snd (IMG_isPCX (Some s)) = Some s
       \<and> (length (data s) - pos s < sizeof_pcxh \<longrightarrow> \<not> fst (IMG_isPCX (Some s)))
       \<and> probe_times n (Some s) = (replicate n (fst (IMG_isPCX (Some s))), Some s)"
  using assms isPCX_stream isPCX_short probe_times_same by blast

theorem probe_no_side_effect_witness:
  "stream_ok \<lparr>data = [10, 5, 1], pos = 1\<rparr>
   \<and> length (data \<lparr>data = [10, 5, 1], pos = 1\<rparr>) - pos \<lparr>data = [10, 5, 1], pos = 1\<rparr>
       < sizeof_pcxh
   \<and> probe_times 3 (Some \<lparr>data = [10, 5, 1], pos = 1\<rparr>)
       = ([False, False, False], Some \<lparr>data = [10, 5, 1], pos = 1\<rparr>)
   \<and> stream_ok \<lparr>data = 7 # header_bytes 1 8 0 0 3 1 1 4, pos = 1\<rparr>
   \<and> probe_times 2 (Some \<lparr>data = 7 # header_bytes 1 8 0 0 3 1 1 4, pos = 1\<rparr>)
       = ([True, True], Some \<lparr>data = 7 # header_bytes 1 8 0 0 3 1 1 4, pos = 1\<rparr>)"
proof -
  let ?a = "\<lparr>data = [10, 5, 1], pos = 1\<rparr>"
  let ?b = "\<lparr>data = 7 # header_bytes 1 8 0 0 3 1 1 4, pos = 1\<rparr>"
  have oka: "stream_ok ?a" by (simp add: stream_ok_def)
  have okb: "stream_ok ?b" by (simp add: stream_ok_def)
  have sh: "length (data ?a) - pos ?a < sizeof_pcxh" by (simp add: sizeof_pcxh_def)
  have fb: "fst (IMG_isPCX (Some ?b))"
    by (simp add: IMG_isPCX_def SDL_ReadIO_def SDL_TellIO_def SDL_SeekIO_def sizeof_pcxh_def
         Let_def header_bytes_def lo_hi_def read_header_def ZSoft_Manufacturer_def
         PC_Paintbrush_Version_def PCX_RunLength_Encoding_def)
  from probe_no_side_effect[OF oka, of 3] sh
  have "probe_times 3 (Some ?a) = ([False, False, False], Some ?a)"
    by (simp add: numeral_3_eq_3)
  moreover from probe_no_side_effect[OF okb, of 2] fb
  have "probe_times 2 (Some ?b) = ([True, True], Some ?b)"
    by (simp add: numeral_2_eq_2)
  ultimately show ?thesis using oka okb sh by simp
qed

subsection \<open>The null handle\<close>

text \<open>
  Claim C10.  With a \<open>NULL\<close> handle the probe answers \<open>false\<close> and the decoder returns
  \<open>NULL\<close>; there is no stream to touch, and the world (SDL's error message, the live
  allocations) is returned as it was.
\<close>

theorem null_stream:
  "IMG_isPCX None = (False, None) \<and> IMG_LoadPCX_IO None wd = Some (None, None, wd)"
  by (simp add: IMG_isPCX_def IMG_LoadPCX_IO_def)

subsection \<open>Which error a failing decode reports\<close>

lemma read_raw_err: "read_raw bpl st = Err e st' \<Longrightarrow> e = ''file truncated''"
  by (auto simp: read_raw_def Let_def split: if_splits prod.splits)

lemma rle_fetch_err: "rle_fetch st = Err e st' \<Longrightarrow> e = ''file truncated''"
  by (auto simp: rle_fetch_def Let_def split: if_splits prod.splits)

lemma rle_loop_err: "rle_loop i bpl st = Err e st' \<Longrightarrow> e = ''file truncated''"
proof (induction i bpl st rule: rle_loop.induct)
  case (1 i bpl st)
  from "1.prems" show ?case
    by (subst (asm) rle_loop.simps)
       (auto split: if_splits result.splits option.splits dest: rle_fetch_err "1.IH")
qed

lemma decode_scanline_err: "decode_scanline pcxh bpl st = Err e st' \<Longrightarrow> e = ''file truncated''"
  by (auto simp: decode_scanline_def split: if_splits dest: read_raw_err rle_loop_err)

lemma deinterlace_plane_err:
  "deinterlace_plane width nplanes end1 end2 bf row innerSrc x dst px = Err e px'
   \<Longrightarrow> e = ''decoding out of bounds (corrupt?)''"
proof (induction width nplanes end1 end2 bf row innerSrc x dst px rule: deinterlace_plane.induct)
  case (1 width nplanes end1 end2 bf row innerSrc x dst px)
  from "1.prems" show ?case
    by (subst (asm) deinterlace_plane.simps)
       (auto split: if_splits option.splits dest: "1.IH")
qed

lemma deinterlace_err:
  "deinterlace width nplanes bytesperline end1 end2 bf row plane innerSrc px = Err e px'
   \<Longrightarrow> e = ''decoding out of bounds (corrupt?)''"
proof (induction width nplanes bytesperline end1 end2 bf row plane innerSrc px
       rule: deinterlace.induct)
  case (1 width nplanes bytesperline end1 end2 bf row plane innerSrc px)
  from "1.prems" show ?case
    by (subst (asm) deinterlace.simps)
       (auto split: if_splits result.splits dest: "1.IH" deinterlace_plane_err)
qed

lemma reconstruct_row_err:
  "reconstruct_row pcxh width src_bits bpl pt row st = Err e st'
   \<Longrightarrow> e = ''decoding out of bounds (corrupt?)''"
  by (auto simp: reconstruct_row_def split: if_splits option.splits result.splits
      dest: deinterlace_err)

lemma decode_rows_err:
  "decode_rows pcxh width src_bits bpl pt height y row st = Err e st'
   \<Longrightarrow> e = ''file truncated'' \<or> e = ''decoding out of bounds (corrupt?)''"
proof (induction pcxh width src_bits bpl pt height y row st rule: decode_rows.induct)
  case (1 pcxh width src_bits bpl pt height y row st)
  from "1.prems" show ?case
    by (subst (asm) decode_rows.simps)
       (auto split: if_splits result.splits dest: "1.IH" decode_scanline_err reconstruct_row_err)
qed

lemma pcx_palette_err:
  "pcx_palette pcxh src_bits surface s wd = (Some e, sf, s', wd')
   \<Longrightarrow> e = ''file truncated'' \<or> e = ''Couldn't create palette''"
  by (auto simp: pcx_palette_def Let_def split: prod.splits option.splits if_splits)

lemma at_done_error:
  "at_done (Some e) sf bf s start wd = (r, s', wd') \<Longrightarrow> r = None \<and> sdl_error wd' = e"
  by (auto simp: at_done_def Let_def SDL_SetError_def)

lemma at_done_ok:
  "at_done None (Some sf) bf s start wd = (r, s', wd') \<Longrightarrow> r = Some sf"
  by (auto simp: at_done_def Let_def)

lemma SDL_CreateSurface_fail:
  "SDL_CreateSurface width height fmt wd = (None, wd1)
   \<Longrightarrow> sdl_error wd1 \<noteq> ''unsupported PCX format''"
  by (auto simp: SDL_CreateSurface_def SDL_SetError_def Let_def split: if_splits)

lemma load_pcx_unsupported:
  "(\<exists>s' wd'. load_pcx pcxh start s wd = Some (None, s', wd')
       \<and> sdl_error wd' = ''unsupported PCX format'')
   \<longleftrightarrow> pcx_format pcxh = None"
proof (cases "pcx_format pcxh")
  case None
  then show ?thesis
    by (simp add: load_pcx_def Let_def at_done_def SDL_SetError_def SDL_free_def)
next
  case (Some bf)
  obtain bits fmt where bf: "bf = (bits, fmt)" by (cases bf)
  have "\<not> (\<exists>s' wd'. load_pcx pcxh start s wd = Some (None, s', wd')
       \<and> sdl_error wd' = ''unsupported PCX format'')"
  proof
    assume "\<exists>s' wd'. load_pcx pcxh start s wd = Some (None, s', wd')
       \<and> sdl_error wd' = ''unsupported PCX format''"
    then obtain s' wd' where r: "load_pcx pcxh start s wd = Some (None, s', wd')"
      and e: "sdl_error wd' = ''unsupported PCX format''" by blast
    from r Some bf e show False
      apply (simp add: load_pcx_def Let_def split: prod.splits option.splits result.splits if_splits)
      apply (auto dest!: at_done_error at_done_ok decode_rows_err pcx_palette_err SDL_CreateSurface_fail
          simp: at_done_def SDL_free_def SDL_SetError_def SDL_DestroySurface_def Let_def split: option.splits)
      done
  qed
  with Some show ?thesis by simp
qed

lemma header_fields:
  "BitsPerPixel (read_header b) = b ! 3" "NPlanes (read_header b) = b ! 65"
  "Encoding (read_header b) = b ! 2"
  by (simp_all add: read_header_def)

lemma pcx_format_None:
  "pcx_format pcxh = None \<longleftrightarrow>
     \<not> ((BitsPerPixel pcxh = 1 \<and> 1 \<le> NPlanes pcxh \<and> NPlanes pcxh \<le> 4)
        \<or> (BitsPerPixel pcxh = 8 \<and> NPlanes pcxh = 1)
        \<or> (BitsPerPixel pcxh = 8 \<and> NPlanes pcxh = 3))"
  by (simp add: pcx_format_def)

lemma LoadPCX_header:
  "sizeof_pcxh \<le> length (data s) - pos s \<Longrightarrow>
   IMG_LoadPCX_IO (Some s) wd =
     load_pcx (read_header (take sizeof_pcxh (drop (pos s) (data s)))) (int (pos s))
       (s\<lparr>pos := pos s + sizeof_pcxh\<rparr>) wd"
  by (simp add: IMG_LoadPCX_IO_def SDL_ReadIO_def SDL_TellIO_def Let_def min_def)

text \<open>
  Claim C6.  Once the 128 header bytes have been read, the decoder returns \<open>NULL\<close> with
  the error \<open>unsupported PCX format\<close> exactly when the header's bits per pixel (byte 3)
  and plane count (byte 65) are none of: one bit with one to four planes, eight bits with
  one plane, eight bits with three planes.  The witness is the header with two bits per
  pixel and one plane.
\<close>

theorem unsupported_format_iff:
  assumes "sizeof_pcxh \<le> length (data s) - pos s"
  shows "(\<exists>s' wd'. IMG_LoadPCX_IO (Some s) wd = Some (None, s', wd')
            \<and> sdl_error wd' = ''unsupported PCX format'')
     \<longleftrightarrow> \<not> ((data s ! (pos s + 3) = 1 \<and> 1 \<le> data s ! (pos s + 65) \<and> data s ! (pos s + 65) \<le> 4)
           \<or> (data s ! (pos s + 3) = 8 \<and> data s ! (pos s + 65) = 1)
           \<or> (data s ! (pos s + 3) = 8 \<and> data s ! (pos s + 65) = 3))"
proof -
  let ?b = "take sizeof_pcxh (drop (pos s) (data s))"
  from assms have "?b ! 3 = data s ! (pos s + 3)" "?b ! 65 = data s ! (pos s + 65)"
    by (simp_all add: sizeof_pcxh_def)
  then show ?thesis
    unfolding LoadPCX_header[OF assms] load_pcx_unsupported pcx_format_None header_fields
    by simp
qed

theorem unsupported_format_iff_witness:
  "sizeof_pcxh \<le> length (data \<lparr>data = header_bytes 1 2 0 0 1 1 1 2, pos = 0\<rparr>)
                    - pos \<lparr>data = header_bytes 1 2 0 0 1 1 1 2, pos = 0\<rparr>
   \<and> (\<exists>s' wd'. IMG_LoadPCX_IO (Some \<lparr>data = header_bytes 1 2 0 0 1 1 1 2, pos = 0\<rparr>) world0
                   = Some (None, s', wd')
              \<and> sdl_error wd' = ''unsupported PCX format'')"
proof -
  let ?s = "\<lparr>data = header_bytes 1 2 0 0 1 1 1 2, pos = 0\<rparr>"
  have len: "sizeof_pcxh \<le> length (data ?s) - pos ?s"
    by (simp add: sizeof_pcxh_def header_bytes_def lo_hi_def)
  have "data ?s ! (pos ?s + 3) = 2" "data ?s ! (pos ?s + 65) = 1"
    by (simp_all add: header_bytes_def lo_hi_def nth_append)
  with unsupported_format_iff[OF len, of world0] len show ?thesis by simp
qed


subsection \<open>The run-length loop\<close>

text \<open>One iteration of the loop while \<open>count\<close> is not zero: nothing is read.\<close>

lemma rle_loop_step:
  assumes "count st \<noteq> 0" "count st \<noteq> INT_MIN" "i < bpl" "length (buf st) = bpl"
  shows "rle_loop i bpl st
       = rle_loop (i + 1) bpl (st\<lparr>buf := (buf st)[i := ch st], count := count st - 1\<rparr>)"
  using assms by (subst rle_loop.simps) (simp add: rle_fetch_def store_def)

lemma fill_step:
  assumes "i + n < length xs"
  shows "(take i xs @ replicate n v @ drop (i + n) xs)[i + n := v]
       = take i xs @ replicate (Suc n) v @ drop (i + Suc n) xs"
proof -
  from assms have "drop (i + n) xs = xs ! (i + n) # drop (i + Suc n) xs"
    by (simp add: Cons_nth_drop_Suc)
  with assms show ?thesis
    by (simp add: list_update_append replicate_append_same)
qed

text \<open>\<open>n\<close> iterations during which \<open>count\<close> neither reaches zero nor leaves the \<open>int\<close> range.\<close>

lemma rle_emit:
  assumes "\<forall>k<n. count st - int k \<noteq> 0 \<and> count st - int k \<noteq> INT_MIN"
    and "i + n \<le> bpl" "length (buf st) = bpl"
  shows "rle_loop i bpl st
       = rle_loop (i + n) bpl
           (st\<lparr>buf := take i (buf st) @ replicate n (ch st) @ drop (i + n) (buf st),
               count := count st - int n\<rparr>)"
  using assms
proof (induction n)
  case 0
  then show ?case by simp
next
  case (Suc n)
  let ?m = "st\<lparr>buf := take i (buf st) @ replicate n (ch st) @ drop (i + n) (buf st),
               count := count st - int n\<rparr>"
  from Suc have ih: "rle_loop i bpl st = rle_loop (i + n) bpl ?m" by simp
  from Suc.prems have "count ?m \<noteq> 0" "count ?m \<noteq> INT_MIN" "i + n < bpl" "length (buf ?m) = bpl"
    by auto
  then have step: "rle_loop (i + n) bpl ?m
      = rle_loop (i + n + 1) bpl (?m\<lparr>buf := (buf ?m)[i + n := ch ?m], count := count ?m - 1\<rparr>)"
    by (rule rle_loop_step)
  from Suc.prems have "(buf ?m)[i + n := ch ?m]
      = take i (buf st) @ replicate (Suc n) (ch st) @ drop (i + Suc n) (buf st)"
    using fill_step[of i n "buf st" "ch st"] by simp
  moreover have "count ?m - 1 = count st - int (Suc n)" by simp
  ultimately have "?m\<lparr>buf := (buf ?m)[i + n := ch ?m], count := count ?m - 1\<rparr>
      = st\<lparr>buf := take i (buf st) @ replicate (Suc n) (ch st) @ drop (i + Suc n) (buf st),
           count := count st - int (Suc n)\<rparr>"
    by (simp del: of_nat_Suc replicate_Suc)
  with ih step show ?case by (simp del: of_nat_Suc replicate_Suc)
qed

text \<open>A run that is active at the start of a loop is emitted before the stream is read.\<close>

lemma rle_run_within:
  assumes "0 < count st" "i + nat (count st) \<le> bpl" "length (buf st) = bpl"
  shows "rle_loop i bpl st
       = rle_loop (i + nat (count st)) bpl
           (st\<lparr>buf := take i (buf st) @ replicate (nat (count st)) (ch st)
                          @ drop (i + nat (count st)) (buf st),
               count := 0\<rparr>)"
proof -
  from assms(1) have "\<forall>k<nat (count st). count st - int k \<noteq> 0 \<and> count st - int k \<noteq> INT_MIN"
    by (auto simp: INT_MIN_def)
  from rle_emit[OF this assms(2,3)] assms(1) show ?thesis by simp
qed

lemma rle_run_beyond:
  assumes "i \<le> bpl" "int (bpl - i) \<le> count st" "length (buf st) = bpl"
  shows "rle_loop i bpl st
       = Ok (st\<lparr>buf := take i (buf st) @ replicate (bpl - i) (ch st),
                 count := count st - int (bpl - i)\<rparr>)"
proof -
  have "rle_loop bpl bpl = Ok" by (rule ext) (simp add: rle_loop.simps)
  moreover from assms(2)
  have "\<forall>k<bpl - i. count st - int k \<noteq> 0 \<and> count st - int k \<noteq> INT_MIN"
    by (auto simp: INT_MIN_def)
  ultimately show ?thesis using rle_emit[of "bpl - i" st i bpl] assms by simp
qed

text \<open>What the loop reads when \<open>count\<close> is zero.\<close>

lemma read_one:
  "p < length xs \<Longrightarrow> take (Suc 0) (drop p xs) = [xs ! p]"
  by (simp add: take_Suc hd_drop_conv_nth)

lemma rle_fetch_literal:
  assumes "count st = 0" "pos (src st) < length (data (src st))"
    "data (src st) ! pos (src st) < 0xc0"
  shows "rle_fetch st
       = Ok (st\<lparr>src := (src st)\<lparr>pos := pos (src st) + 1\<rparr>,
                 count := 1, ch := data (src st) ! pos (src st)\<rparr>)"
  using assms by (simp add: rle_fetch_def SDL_ReadIO_def Let_def read_one)

lemma rle_fetch_run:
  assumes "count st = 0" "pos (src st) + 1 < length (data (src st))"
    "data (src st) ! pos (src st) \<ge> 0xc0"
  shows "rle_fetch st
       = Ok (st\<lparr>src := (src st)\<lparr>pos := pos (src st) + 2\<rparr>,
                 count := uint (data (src st) ! pos (src st)) - 0xc0,
                 ch := data (src st) ! (pos (src st) + 1)\<rparr>)"
  using assms by (simp add: rle_fetch_def SDL_ReadIO_def Let_def read_one)

text \<open>After a fetch the loop goes on as if it had started in the fetched state.\<close>

lemma rle_loop_fetch:
  assumes "rle_fetch st = Ok st1" "count st1 \<noteq> 0"
  shows "rle_loop i bpl st = (if i < bpl then rle_loop i bpl st1 else Ok st)"
proof -
  from assms(2) have "rle_fetch st1 = Ok st1" by (simp add: rle_fetch_def)
  with assms(1) show ?thesis
    by (subst rle_loop.simps, subst (2) rle_loop.simps) simp
qed

text \<open>
  A byte below \<open>0xC0\<close> is emitted once.  A byte \<open>0xC0 + n\<close> with \<open>n \<ge> 1\<close> makes the
  next byte be emitted \<open>n\<close> times (as far as the row reaches; see \<open>rle_run_beyond\<close>
  for the rest).
\<close>

lemma rle_literal:
  assumes "count st = 0" "pos (src st) < length (data (src st))"
    "data (src st) ! pos (src st) < 0xc0" "i < bpl" "length (buf st) = bpl"
  shows "rle_loop i bpl st
       = rle_loop (i + 1) bpl
           (st\<lparr>src := (src st)\<lparr>pos := pos (src st) + 1\<rparr>,
               buf := (buf st)[i := data (src st) ! pos (src st)],
               count := 0, ch := data (src st) ! pos (src st)\<rparr>)"
proof -
  let ?c = "data (src st) ! pos (src st)"
  let ?st1 = "st\<lparr>src := (src st)\<lparr>pos := pos (src st) + 1\<rparr>, count := 1, ch := ?c\<rparr>"
  from assms have f: "rle_fetch st = Ok ?st1" by (simp add: rle_fetch_literal)
  have eq: "?st1\<lparr>buf := (buf st)[i := ?c], count := count ?st1 - 1\<rparr>
      = st\<lparr>src := (src st)\<lparr>pos := pos (src st) + 1\<rparr>, buf := (buf st)[i := ?c],
           count := 0, ch := ?c\<rparr>"
    by (rule decoder.equality) simp_all
  from assms have "rle_loop i bpl st
      = rle_loop (i + 1) bpl (?st1\<lparr>buf := (buf st)[i := ?c], count := count ?st1 - 1\<rparr>)"
    by (subst rle_loop.simps) (simp add: f store_def INT_MIN_def)
  then show ?thesis by (simp only: eq)
qed

lemma rle_run:
  assumes zero: "count st = 0"
    and avail: "pos (src st) + 1 < length (data (src st))"
    and ctl: "data (src st) ! pos (src st) > 0xc0"
    and fits: "i + nat (uint (data (src st) ! pos (src st)) - 0xc0) \<le> bpl"
    and len: "length (buf st) = bpl"
  shows "rle_loop i bpl st
       = rle_loop (i + nat (uint (data (src st) ! pos (src st)) - 0xc0)) bpl
           (st\<lparr>src := (src st)\<lparr>pos := pos (src st) + 2\<rparr>,
               buf := take i (buf st)
                        @ replicate (nat (uint (data (src st) ! pos (src st)) - 0xc0))
                            (data (src st) ! (pos (src st) + 1))
                        @ drop (i + nat (uint (data (src st) ! pos (src st)) - 0xc0)) (buf st),
               count := 0, ch := data (src st) ! (pos (src st) + 1)\<rparr>)"
proof -
  let ?c = "data (src st) ! pos (src st)"
  let ?v = "data (src st) ! (pos (src st) + 1)"
  let ?n = "nat (uint ?c - 0xc0)"
  let ?st1 = "st\<lparr>src := (src st)\<lparr>pos := pos (src st) + 2\<rparr>,
                 count := uint ?c - 0xc0, ch := ?v\<rparr>"
  from ctl have pos: "0 < uint ?c - 0xc0"
    by (simp add: word_less_def)
  with fits have i: "i < bpl" by simp
  from ctl have "?c \<ge> 0xc0" by simp
  from rle_fetch_run[OF zero avail this] have f: "rle_fetch st = Ok ?st1" .
  from pos i have "rle_loop i bpl st = rle_loop i bpl ?st1"
    using rle_loop_fetch[OF f, of i bpl] by simp
  also from rle_run_within[of ?st1 i bpl] pos fits len
  have "rle_loop i bpl ?st1 = rle_loop (i + ?n) bpl
           (?st1\<lparr>buf := take i (buf st) @ replicate ?n ?v @ drop (i + ?n) (buf st),
               count := 0\<rparr>)"
    by simp
  also have "?st1\<lparr>buf := take i (buf st) @ replicate ?n ?v @ drop (i + ?n) (buf st),
               count := 0\<rparr>
      = st\<lparr>src := (src st)\<lparr>pos := pos (src st) + 2\<rparr>,
           buf := take i (buf st) @ replicate ?n ?v @ drop (i + ?n) (buf st),
           count := 0, ch := ?v\<rparr>"
    by (rule decoder.equality) simp_all
  finally show ?thesis .
qed

text \<open>
  The byte \<open>0xC0\<close> (a run of length zero) makes \<open>count\<close> negative: the byte after it is
  emitted to the end of the row, and \<open>count\<close> stays below zero for the rows that follow.
\<close>

lemma rle_zero_run:
  assumes zero: "count st = 0"
    and avail: "pos (src st) + 1 < length (data (src st))"
    and ctl: "data (src st) ! pos (src st) = 0xc0"
    and i: "i < bpl" and small: "int bpl < 2 ^ 31"
    and len: "length (buf st) = bpl"
  shows "rle_loop i bpl st
       = Ok (st\<lparr>src := (src st)\<lparr>pos := pos (src st) + 2\<rparr>,
                 buf := take i (buf st) @ replicate (bpl - i) (data (src st) ! (pos (src st) + 1)),
                 count := - int (bpl - i), ch := data (src st) ! (pos (src st) + 1)\<rparr>)"
proof -
  let ?v = "data (src st) ! (pos (src st) + 1)"
  let ?st1 = "st\<lparr>src := (src st)\<lparr>pos := pos (src st) + 2\<rparr>, count := 0, ch := ?v\<rparr>"
  let ?st2 = "?st1\<lparr>buf := (buf st)[i := ?v], count := - 1\<rparr>"
  from ctl have "data (src st) ! pos (src st) \<ge> 0xc0" by simp
  from rle_fetch_run[OF zero avail this] ctl have f: "rle_fetch st = Ok ?st1" by simp
  from i len have one: "rle_loop i bpl st = rle_loop (i + 1) bpl ?st2"
    by (subst rle_loop.simps) (simp add: f store_def INT_MIN_def)
  from small have "\<forall>k<bpl - (i + 1). count ?st2 - int k \<noteq> 0 \<and> count ?st2 - int k \<noteq> INT_MIN"
    by (auto simp: INT_MIN_def)
  from rle_emit[OF this, of "i + 1" bpl] i len
  have two: "rle_loop (i + 1) bpl ?st2
      = rle_loop bpl bpl
          (?st2\<lparr>buf := take (i + 1) ((buf st)[i := ?v]) @ replicate (bpl - (i + 1)) ?v,
                count := - 1 - int (bpl - (i + 1))\<rparr>)"
    by simp
  from i len have b: "take (i + 1) ((buf st)[i := ?v]) @ replicate (bpl - (i + 1)) ?v
      = take i (buf st) @ replicate (bpl - i) ?v"
    by (simp add: take_Suc_conv_app_nth replicate_app_Cons_same Suc_diff_Suc
             flip: replicate_Suc)
  from i have c: "- 1 - int (bpl - (i + 1)) = - int (bpl - i)" by simp
  have "?st2\<lparr>buf := take (i + 1) ((buf st)[i := ?v]) @ replicate (bpl - (i + 1)) ?v,
                count := - 1 - int (bpl - (i + 1))\<rparr>
      = st\<lparr>src := (src st)\<lparr>pos := pos (src st) + 2\<rparr>,
           buf := take i (buf st) @ replicate (bpl - i) ?v,
           count := - int (bpl - i), ch := ?v\<rparr>"
    unfolding b c by (rule decoder.equality) simp_all
  moreover have "rle_loop bpl bpl = Ok" by (rule ext) (simp add: rle_loop.simps)
  ultimately show ?thesis using one two by simp
qed

text \<open>
  Claim C1.  The decoder does what the claim says for a byte below \<open>0xC0\<close>
  (\<open>rle_literal\<close>) and for a byte \<open>0xC0 + n\<close> with \<open>n \<ge> 1\<close> (\<open>rle_run\<close>): the bytes
  \<open>C3 7F\<close> fill a row of three bytes with \<open>7F\<close>.  It does not for the byte \<open>0xC0\<close>
  itself (\<open>rle_zero_run\<close>).  A one-bit image of 8 by 2 pixels whose data is
  \<open>C0 FF 00 00\<close>: a run of length zero of \<open>FF\<close>, then two literal zero bytes, one for
  each row.  The decoder stores \<open>FF\<close> in both rows (every pixel is 1) and never reads the
  two zero bytes: the cursor stops at 130.
\<close>

theorem zero_count_run_fills_image:
  "rle_loop 0 3 \<lparr>src = \<lparr>data = [0xC3, 0x7F], pos = 0\<rparr>, buf = [0, 0, 0], pix = [],
                 count = 0, ch = 0\<rparr>
     = Ok \<lparr>src = \<lparr>data = [0xC3, 0x7F], pos = 2\<rparr>, buf = [0x7F, 0x7F, 0x7F], pix = [],
            count = 0, ch = 0x7F\<rparr>
   \<and> outcome (IMG_LoadPCX_IO
         (Some \<lparr>data = header_bytes 1 1 0 0 7 1 1 1 @ [0xC0, 0xFF, 0, 0], pos = 0\<rparr>) world0)
     = Some (Some [1, 1, 1, 1, 1, 1, 1, 1, 1, 1, 1, 1, 1, 1, 1, 1], Some 130, [], 1, 0)"
  by code_simp

subsection \<open>Runs across rows\<close>

lemma reconstruct_row_keeps:
  "reconstruct_row pcxh width src_bits bpl pt row st = Ok st'
   \<Longrightarrow> src st' = src st \<and> buf st' = buf st \<and> count st' = count st \<and> ch st' = ch st"
  by (auto simp: reconstruct_row_def split: if_splits option.splits result.splits)

lemma rle_loop_length:
  "rle_loop i bpl st = Ok st' \<Longrightarrow> length (buf st') = length (buf st)"
proof (induction i bpl st rule: rle_loop.induct)
  case (1 i bpl st)
  from "1.prems" show ?case
    apply (subst (asm) rle_loop.simps)
    apply (auto split: if_splits result.splits option.splits dest!: "1.IH")
    apply (auto simp: rle_fetch_def store_def Let_def split: if_splits prod.splits)
    done
qed

text \<open>
  The run-length loop started at index \<open>i\<close> leaves the bytes below \<open>i\<close> as they are.
\<close>

lemma rle_loop_prefix:
  "rle_loop i bpl st = Ok st' \<Longrightarrow> take i (buf st') = take i (buf st)"
proof (induction i bpl st rule: rle_loop.induct)
  case (1 i bpl st)
  note unfold = rle_loop.simps[of i bpl st]
  show ?case
  proof (cases "i < bpl")
    case False
    with "1.prems" show ?thesis by (simp add: unfold)
  next
    case True
    from "1.prems" True obtain st1 b where f: "rle_fetch st = Ok st1"
      and s: "store (buf st1) (int i) (ch st1) = Some b"
      and m: "count st1 \<noteq> INT_MIN"
      and r: "rle_loop (i + 1) bpl (st1\<lparr>buf := b, count := count st1 - 1\<rparr>) = Ok st'"
      by (auto simp: unfold split: result.splits option.splits if_splits)
    from f have b1: "buf st1 = buf st"
      by (auto simp: rle_fetch_def Let_def split: if_splits prod.splits)
    from s have b: "b = (buf st1)[i := ch st1]"
      by (auto simp: store_def split: if_splits)
    from "1.IH"[OF True f s m r] have "take (i + 1) (buf st') = take (i + 1) b" by simp
    then have "take i (take (i + 1) (buf st')) = take i (take (i + 1) b)" by simp
    then have "take i (buf st') = take i b" by (simp add: min_def)
    with b b1 show ?thesis by simp
  qed
qed

text \<open>
  A scanline begun with a run active: as much of the run as the row holds is stored
  first, with the stream untouched, and the loop goes on from there.
\<close>

lemma run_rest_first:
  assumes enc: "Encoding pcxh \<noteq> 0" and len: "length (buf st) = bpl"
    and n: "n = min bpl (nat (count st))"
  shows "decode_scanline pcxh bpl st
       = rle_loop n bpl
           (st\<lparr>buf := replicate n (ch st) @ drop n (buf st), count := count st - int n\<rparr>)"
proof -
  from n have "\<forall>k<n. count st - int k \<noteq> 0 \<and> count st - int k \<noteq> INT_MIN"
    by (auto simp: INT_MIN_def)
  moreover from n have "0 + n \<le> bpl" by simp
  ultimately have "rle_loop 0 bpl st
      = rle_loop (0 + n) bpl
          (st\<lparr>buf := take 0 (buf st) @ replicate n (ch st) @ drop (0 + n) (buf st),
              count := count st - int n\<rparr>)"
    using len by (rule rle_emit)
  with enc show ?thesis by (simp add: decode_scanline_def)
qed

text \<open>
  Claim C2.  In a run-length decode (\<open>Encoding \<noteq> 0\<close>), let the row loop be at row \<open>y\<close>,
  let the scanline of that row be decoded (\<open>row1\<close>) and leave a run active
  (\<open>0 < count\<close>), and let the row be reconstructed (\<open>rec\<close>).  Write \<open>n\<close> for the
  part of the run that the next row can hold, and \<open>st3\<close> for the state in which these
  \<open>n\<close> copies of \<open>ch\<close> stand at the start of the scratch buffer, with the stream where
  the first row left it.  Then the reconstruction hands the stream, \<open>ch\<close> and \<open>count\<close>
  on as they were, and the row loop, when another row follows, is the run-length loop
  entered at index \<open>n\<close> in \<open>st3\<close>, followed by the reconstruction of that row and the
  rows after it: the scanline of row \<open>y + 1\<close> begins with the \<open>n\<close> copies, whatever is
  decoded behind them, no byte of the stream has been read for them, and the loop goes on
  to fetch a control byte only at index \<open>n\<close>, with \<open>count = 0\<close> (or the run fills the
  whole row and stays active).  The witness is the image of 4 by 2 pixels with the data
  \<open>01 02 C5 7F 09 08 07 06\<close>: the run of five starts two bytes before the end of the
  first row, the row loop stores three bytes \<open>7F\<close> in the second row before it reads the
  byte \<open>09\<close>, and the pixels are \<open>01 02 7F 7F\<close> and \<open>7F 7F 7F 09\<close>.
\<close>

theorem run_carries_over:
  assumes enc: "Encoding pcxh \<noteq> 0"
    and len: "length (buf st) = bpl"
    and row1: "decode_scanline pcxh bpl st = Ok st1"
    and active: "0 < count st1"
    and rec: "reconstruct_row pcxh width src_bits bpl pt row st1 = Ok st2"
    and n: "n = min bpl (nat (count st1))"
    and st3: "st3 = st2\<lparr>buf := replicate n (ch st1) @ drop n (buf st2),
                         count := count st1 - int n\<rparr>"
  shows "src st2 = src st1 \<and> ch st2 = ch st1 \<and> count st2 = count st1
       \<and> src st3 = src st1
       \<and> (y < height \<longrightarrow>
            decode_rows pcxh width src_bits bpl pt height y row st
              = decode_rows pcxh width src_bits bpl pt height (y + 1) (row + pt) st2)
       \<and> decode_scanline pcxh bpl st2 = rle_loop n bpl st3
       \<and> (y + 1 < height \<longrightarrow>
          decode_rows pcxh width src_bits bpl pt height y row st
           = (case rle_loop n bpl st3 of
                Ok st4 \<Rightarrow>
                  (case reconstruct_row pcxh width src_bits bpl pt (row + pt) st4 of
                     Ok st5 \<Rightarrow>
                       decode_rows pcxh width src_bits bpl pt height (y + 2) (row + pt + pt) st5
                   | Err e st5 \<Rightarrow> Err e st5
                   | Fault \<Rightarrow> Fault
                   | Overflow \<Rightarrow> Overflow)
              | Err e st4 \<Rightarrow> Err e st4
              | Fault \<Rightarrow> Fault
              | Overflow \<Rightarrow> Overflow))
       \<and> (\<forall>st4. rle_loop n bpl st3 = Ok st4 \<longrightarrow> take n (buf st4) = replicate n (ch st1))
       \<and> (n < bpl \<longrightarrow> count st3 = 0)"
proof -
  from rec have keep: "src st2 = src st1" "buf st2 = buf st1" "count st2 = count st1"
    "ch st2 = ch st1"
    using reconstruct_row_keeps by blast+
  from row1 enc have "rle_loop 0 bpl st = Ok st1" by (simp add: decode_scanline_def)
  with len have len2: "length (buf st2) = bpl" using rle_loop_length keep by metis
  have next_row: "decode_scanline pcxh bpl st2 = rle_loop n bpl st3"
    using run_rest_first[OF enc len2, of n] n st3 keep by simp
  have one: "decode_rows pcxh width src_bits bpl pt height y row st
      = decode_rows pcxh width src_bits bpl pt height (y + 1) (row + pt) st2" if "y < height"
    using row1 rec that by (subst decode_rows.simps) simp
  have two: "decode_rows pcxh width src_bits bpl pt height (y + 1) (row + pt) st2
      = (case rle_loop n bpl st3 of
                Ok st4 \<Rightarrow>
                  (case reconstruct_row pcxh width src_bits bpl pt (row + pt) st4 of
                     Ok st5 \<Rightarrow>
                       decode_rows pcxh width src_bits bpl pt height (y + 2) (row + pt + pt) st5
                   | Err e st5 \<Rightarrow> Err e st5
                   | Fault \<Rightarrow> Fault
                   | Overflow \<Rightarrow> Overflow)
              | Err e st4 \<Rightarrow> Err e st4
              | Fault \<Rightarrow> Fault
              | Overflow \<Rightarrow> Overflow)" if "y + 1 < height"
  proof -
    note unfold = decode_rows.simps[of pcxh width src_bits bpl pt height "y + 1" "row + pt" st2]
    have e: "y + 1 + 1 = y + 2" by simp
    from that show ?thesis unfolding unfold next_row e by (simp only: if_True)
  qed
  have pre: "\<forall>st4. rle_loop n bpl st3 = Ok st4 \<longrightarrow> take n (buf st4) = replicate n (ch st1)"
  proof (intro allI impI)
    fix st4 assume "rle_loop n bpl st3 = Ok st4"
    from rle_loop_prefix[OF this] st3 show "take n (buf st4) = replicate n (ch st1)" by simp
  qed
  from n active have z: "n < bpl \<longrightarrow> count st3 = 0" by (auto simp: st3 min_def)
  from keep have s3: "src st3 = src st1" by (simp add: st3)
  have both: "decode_rows pcxh width src_bits bpl pt height y row st
      = (case rle_loop n bpl st3 of
                Ok st4 \<Rightarrow>
                  (case reconstruct_row pcxh width src_bits bpl pt (row + pt) st4 of
                     Ok st5 \<Rightarrow>
                       decode_rows pcxh width src_bits bpl pt height (y + 2) (row + pt + pt) st5
                   | Err e st5 \<Rightarrow> Err e st5
                   | Fault \<Rightarrow> Fault
                   | Overflow \<Rightarrow> Overflow)
              | Err e st4 \<Rightarrow> Err e st4
              | Fault \<Rightarrow> Fault
              | Overflow \<Rightarrow> Overflow)" if "y + 1 < height"
  proof -
    from that have "y < height" by simp
    from one[OF this] two[OF that] show ?thesis by (rule trans)
  qed
  from keep(1,4,3) s3 one next_row both pre z show ?thesis by blast
qed

theorem run_carries_over_witness:
  "Encoding (read_header (header_bytes 1 8 0 0 3 1 1 4)) \<noteq> 0
   \<and> decode_scanline (read_header (header_bytes 1 8 0 0 3 1 1 4)) 4
        \<lparr>src = \<lparr>data = [1, 2, 0xC5, 0x7F, 9, 8, 7, 6], pos = 0\<rparr>, buf = [0, 0, 0, 0],
         pix = [0, 0, 0, 0, 0, 0, 0, 0], count = 0, ch = 0\<rparr>
       = Ok \<lparr>src = \<lparr>data = [1, 2, 0xC5, 0x7F, 9, 8, 7, 6], pos = 4\<rparr>, buf = [1, 2, 0x7F, 0x7F],
              pix = [0, 0, 0, 0, 0, 0, 0, 0], count = 3, ch = 0x7F\<rparr>
   \<and> reconstruct_row (read_header (header_bytes 1 8 0 0 3 1 1 4)) 4 8 4 4 0
        \<lparr>src = \<lparr>data = [1, 2, 0xC5, 0x7F, 9, 8, 7, 6], pos = 4\<rparr>, buf = [1, 2, 0x7F, 0x7F],
         pix = [0, 0, 0, 0, 0, 0, 0, 0], count = 3, ch = 0x7F\<rparr>
       = Ok \<lparr>src = \<lparr>data = [1, 2, 0xC5, 0x7F, 9, 8, 7, 6], pos = 4\<rparr>, buf = [1, 2, 0x7F, 0x7F],
              pix = [1, 2, 0x7F, 0x7F, 0, 0, 0, 0], count = 3, ch = 0x7F\<rparr>
   \<and> rle_loop 3 4
        \<lparr>src = \<lparr>data = [1, 2, 0xC5, 0x7F, 9, 8, 7, 6], pos = 4\<rparr>, buf = [0x7F, 0x7F, 0x7F, 0x7F],
         pix = [1, 2, 0x7F, 0x7F, 0, 0, 0, 0], count = 0, ch = 0x7F\<rparr>
       = Ok \<lparr>src = \<lparr>data = [1, 2, 0xC5, 0x7F, 9, 8, 7, 6], pos = 5\<rparr>, buf = [0x7F, 0x7F, 0x7F, 9],
              pix = [1, 2, 0x7F, 0x7F, 0, 0, 0, 0], count = 0, ch = 9\<rparr>
   \<and> decode_rows (read_header (header_bytes 1 8 0 0 3 1 1 4)) 4 8 4 4 2 0 0
        \<lparr>src = \<lparr>data = [1, 2, 0xC5, 0x7F, 9, 8, 7, 6], pos = 0\<rparr>, buf = [0, 0, 0, 0],
         pix = [0, 0, 0, 0, 0, 0, 0, 0], count = 0, ch = 0\<rparr>
       = Ok \<lparr>src = \<lparr>data = [1, 2, 0xC5, 0x7F, 9, 8, 7, 6], pos = 5\<rparr>, buf = [0x7F, 0x7F, 0x7F, 9],
              pix = [1, 2, 0x7F, 0x7F, 0x7F, 0x7F, 0x7F, 9], count = 0, ch = 9\<rparr>"
proof -
  let ?h = "read_header (header_bytes 1 8 0 0 3 1 1 4)"
  let ?d = "[1, 2, 0xC5, 0x7F, 9, 8, 7, 6] :: u8 list"
  let ?st = "\<lparr>src = \<lparr>data = ?d, pos = 0\<rparr>, buf = [0, 0, 0, 0],
         pix = [0, 0, 0, 0, 0, 0, 0, 0], count = 0, ch = 0\<rparr>"
  let ?st1 = "\<lparr>src = \<lparr>data = ?d, pos = 4\<rparr>, buf = [1, 2, 0x7F, 0x7F],
              pix = [0, 0, 0, 0, 0, 0, 0, 0], count = 3, ch = 0x7F\<rparr>"
  let ?st2 = "\<lparr>src = \<lparr>data = ?d, pos = 4\<rparr>, buf = [1, 2, 0x7F, 0x7F],
              pix = [1, 2, 0x7F, 0x7F, 0, 0, 0, 0], count = 3, ch = 0x7F\<rparr>"
  let ?st3 = "\<lparr>src = \<lparr>data = ?d, pos = 4\<rparr>, buf = [0x7F, 0x7F, 0x7F, 0x7F],
         pix = [1, 2, 0x7F, 0x7F, 0, 0, 0, 0], count = 0, ch = 0x7F\<rparr>"
  let ?st4 = "\<lparr>src = \<lparr>data = ?d, pos = 5\<rparr>, buf = [0x7F, 0x7F, 0x7F, 9],
              pix = [1, 2, 0x7F, 0x7F, 0, 0, 0, 0], count = 0, ch = 9\<rparr>"
  let ?st5 = "\<lparr>src = \<lparr>data = ?d, pos = 5\<rparr>, buf = [0x7F, 0x7F, 0x7F, 9],
              pix = [1, 2, 0x7F, 0x7F, 0x7F, 0x7F, 0x7F, 9], count = 0, ch = 9\<rparr>"
  have enc: "Encoding ?h \<noteq> 0"
    by (simp add: read_header_def header_bytes_def)
  have len: "length (buf ?st) = 4" by simp
  have more: "(0::int) + 1 < 2" by simp
  have row1: "decode_scanline ?h 4 ?st = Ok ?st1"
    using enc
    by (simp add: decode_scanline_def rle_loop.simps rle_fetch_def SDL_ReadIO_def store_def
        INT_MIN_def Let_def)
  have active: "0 < count ?st1" by simp
  have rec: "reconstruct_row ?h 4 8 4 4 0 ?st1 = Ok ?st2"
    by (simp add: reconstruct_row_def copy_row_def size_t_def Let_def)
  have n: "(3::nat) = min 4 (nat (count ?st1))" by simp
  have st3: "?st3 = ?st2\<lparr>buf := replicate 3 (ch ?st1) @ drop 3 (buf ?st2),
                         count := count ?st1 - int 3\<rparr>"
    by (simp add: numeral_3_eq_3)
  have last: "rle_loop 3 4 ?st3 = Ok ?st4"
    by (simp add: rle_loop.simps rle_fetch_def SDL_ReadIO_def store_def INT_MIN_def Let_def)
  have rec2: "reconstruct_row ?h 4 8 4 4 (0 + 4) ?st4 = Ok ?st5"
    by (simp add: reconstruct_row_def copy_row_def size_t_def Let_def)
  have fin: "decode_rows ?h 4 8 4 4 2 (0 + 2) (0 + 4 + 4) ?st5 = Ok ?st5"
    by (simp add: decode_rows.simps)
  note rows = run_carries_over[OF enc len row1 active rec n st3,
      where y = 0 and height = 2, THEN conjunct2, THEN conjunct2, THEN conjunct2,
      THEN conjunct2, THEN conjunct2, THEN conjunct2, THEN conjunct1, rule_format, OF more]
  have "decode_rows ?h 4 8 4 4 2 0 0 ?st = Ok ?st5"
    unfolding rows by (simp only: last rec2 fin result.case)
  with enc row1 rec last show ?thesis by simp
qed

subsection \<open>The encoding byte\<close>

text \<open>The row loop when the encoding byte is not zero, and when it is zero.\<close>

lemma decode_rows_rle:
  "Encoding pcxh \<noteq> 0 \<Longrightarrow>
   decode_rows pcxh width src_bits bpl pt height y row st
     = (if y < height then
          (case rle_loop 0 bpl st of
             Ok st1 \<Rightarrow>
               (case reconstruct_row pcxh width src_bits bpl pt row st1 of
                  Ok st2 \<Rightarrow>
                    decode_rows pcxh width src_bits bpl pt height (y + 1) (row + pt) st2
                | Err e st2 \<Rightarrow> Err e st2
                | Fault \<Rightarrow> Fault
                | Overflow \<Rightarrow> Overflow)
           | Err e st1 \<Rightarrow> Err e st1
           | Fault \<Rightarrow> Fault
           | Overflow \<Rightarrow> Overflow)
        else Ok st)"
  by (subst decode_rows.simps) (simp add: decode_scanline_def)

lemma read_raw_row:
  assumes "length (buf st) = bpl" "pos (src st) + bpl \<le> length (data (src st))"
  shows "read_raw bpl st
       = Ok (st\<lparr>src := (src st)\<lparr>pos := pos (src st) + bpl\<rparr>,
                 buf := take bpl (drop (pos (src st)) (data (src st)))\<rparr>)"
  using assms by (auto simp: read_raw_def SDL_ReadIO_def Let_def min_def)

lemma read_raw_short:
  assumes "length (buf st) = bpl" "pos (src st) \<le> length (data (src st))"
    "length (data (src st)) < pos (src st) + bpl"
  shows "\<exists>st'. read_raw bpl st = Err ''file truncated'' st'"
  using assms by (auto simp: read_raw_def SDL_ReadIO_def Let_def min_def)

lemma decode_rows_raw:
  assumes "Encoding pcxh = 0" "y < height" "length (buf st) = bpl"
    "pos (src st) + bpl \<le> length (data (src st))"
  shows "decode_rows pcxh width src_bits bpl pt height y row st
     = (case reconstruct_row pcxh width src_bits bpl pt row
               (st\<lparr>src := (src st)\<lparr>pos := pos (src st) + bpl\<rparr>,
                   buf := take bpl (drop (pos (src st)) (data (src st)))\<rparr>) of
          Ok st2 \<Rightarrow> decode_rows pcxh width src_bits bpl pt height (y + 1) (row + pt) st2
        | Err e st2 \<Rightarrow> Err e st2
        | Fault \<Rightarrow> Fault
        | Overflow \<Rightarrow> Overflow)"
  using assms(1,2) read_raw_row[OF assms(3,4)]
  by (subst decode_rows.simps) (simp add: decode_scanline_def)

lemma decode_rows_raw_short:
  assumes "Encoding pcxh = 0" "y < height" "length (buf st) = bpl"
    "pos (src st) \<le> length (data (src st))" "length (data (src st)) < pos (src st) + bpl"
  shows "\<exists>st'. decode_rows pcxh width src_bits bpl pt height y row st
            = Err ''file truncated'' st'"
proof -
  from read_raw_short[OF assms(3,4,5)] obtain st' where "read_raw bpl st = Err ''file truncated'' st'"
    by blast
  with assms(1,2) show ?thesis
    by (subst decode_rows.simps) (simp add: decode_scanline_def)
qed

text \<open>The value of a non-zero encoding byte makes no difference.\<close>

lemma decode_rows_enc:
  "Encoding pcxh \<noteq> 0 \<Longrightarrow>
   decode_rows pcxh width src_bits bpl pt height y row st
     = decode_rows (pcxh\<lparr>Encoding := PCX_RunLength_Encoding\<rparr>) width src_bits bpl pt height y row st"
proof (induction pcxh width src_bits bpl pt height y row st rule: decode_rows.induct)
  case (1 pcxh width src_bits bpl pt height y row st)
  let ?p = "pcxh\<lparr>Encoding := PCX_RunLength_Encoding\<rparr>"
  have sc: "decode_scanline ?p bpl st = decode_scanline pcxh bpl st"
    using "1.prems" by (simp add: decode_scanline_def PCX_RunLength_Encoding_def)
  have rc: "\<And>st1. reconstruct_row ?p width src_bits bpl pt row st1
                 = reconstruct_row pcxh width src_bits bpl pt row st1"
    by (simp add: reconstruct_row_def)
  show ?case
    apply (subst decode_rows.simps[of pcxh])
    apply (subst decode_rows.simps[of ?p])
    apply (simp add: sc rc split: result.splits)
    using "1.IH" "1.prems" apply auto
    done
qed

lemma load_pcx_enc:
  assumes "Encoding pcxh \<noteq> 0"
  shows "load_pcx pcxh start s wd
           = load_pcx (pcxh\<lparr>Encoding := PCX_RunLength_Encoding\<rparr>) start s wd"
proof -
  let ?p = "pcxh\<lparr>Encoding := PCX_RunLength_Encoding\<rparr>"
  have fm: "pcx_format ?p = pcx_format pcxh" by (simp add: pcx_format_def)
  have pl: "\<And>sb sf s1 w1. pcx_palette ?p sb sf s1 w1 = pcx_palette pcxh sb sf s1 w1"
    by (simp add: pcx_palette_def Let_def split: prod.splits option.splits)
  show "load_pcx pcxh start s wd = load_pcx ?p start s wd"
    unfolding load_pcx_def fm pl
    by (simp add: decode_rows_enc[OF assms, symmetric] Let_def
          split: option.splits prod.splits)
qed

text \<open>The first control byte of a row that begins with no run pending.\<close>

lemma rle_row_literal:
  assumes "count st = 0" "length (buf st) = bpl" "0 < bpl"
    "pos (src st) < length (data (src st))" "data (src st) ! pos (src st) < 0xc0"
  shows "rle_loop 0 bpl st
       = rle_loop 1 bpl
           (st\<lparr>src := (src st)\<lparr>pos := pos (src st) + 1\<rparr>,
               buf := (buf st)[0 := data (src st) ! pos (src st)],
               count := 0, ch := data (src st) ! pos (src st)\<rparr>)"
  using rle_literal[of st 0 bpl] assms by simp

lemma rle_row_run:
  assumes "count st = 0" "length (buf st) = bpl"
    "pos (src st) + 1 < length (data (src st))" "data (src st) ! pos (src st) > 0xc0"
    "nat (uint (data (src st) ! pos (src st)) - 0xc0) \<le> bpl"
  shows "rle_loop 0 bpl st
       = rle_loop (nat (uint (data (src st) ! pos (src st)) - 0xc0)) bpl
           (st\<lparr>src := (src st)\<lparr>pos := pos (src st) + 2\<rparr>,
               buf := replicate (nat (uint (data (src st) ! pos (src st)) - 0xc0))
                            (data (src st) ! (pos (src st) + 1))
                        @ drop (nat (uint (data (src st) ! pos (src st)) - 0xc0)) (buf st),
               count := 0, ch := data (src st) ! (pos (src st) + 1)\<rparr>)"
  using rle_run[of st 0 bpl] assms by simp

text \<open>
  Claim C9.  For a header whose encoding byte is not zero, whatever its value, the row
  loop decodes every row with the run-length loop, and the whole decode is the one of the
  same header with encoding 1.  The run-length loop, at the start of a row with no run
  pending, stores a byte below \<open>0xC0\<close> as it is, and for a byte \<open>0xC0 + n\<close> with
  \<open>1 \<le> n\<close> it stores \<open>n\<close> copies of the byte behind it (here for a run that ends
  inside the row).  Only for the encoding byte zero is a row the next \<open>bpl\<close> bytes of
  the stream as they are; fewer bytes left give the error \<open>file truncated\<close>.  The error
  \<open>unsupported PCX format\<close> depends on bits per pixel and plane count alone.  The
  witness is a one-bit image of 8 by 2 pixels with the data \<open>C2 FF\<close>: with the encoding
  byte 7 both rows are \<open>FF\<close> and the decode succeeds with every pixel 1; with the
  encoding byte 0 the rows are \<open>C2\<close> and \<open>FF\<close>.
\<close>

theorem nonzero_encoding_is_run_length:
  "(Encoding pcxh \<noteq> 0 \<longrightarrow>
      decode_rows pcxh width src_bits bpl pt height y row st
        = (if y < height then
             (case rle_loop 0 bpl st of
                Ok st1 \<Rightarrow>
                  (case reconstruct_row pcxh width src_bits bpl pt row st1 of
                     Ok st2 \<Rightarrow>
                       decode_rows pcxh width src_bits bpl pt height (y + 1) (row + pt) st2
                   | Err e st2 \<Rightarrow> Err e st2
                   | Fault \<Rightarrow> Fault
                   | Overflow \<Rightarrow> Overflow)
              | Err e st1 \<Rightarrow> Err e st1
              | Fault \<Rightarrow> Fault
              | Overflow \<Rightarrow> Overflow)
           else Ok st)
      \<and> load_pcx pcxh start s wd
          = load_pcx (pcxh\<lparr>Encoding := PCX_RunLength_Encoding\<rparr>) start s wd)
   \<and> (count st = 0 \<and> length (buf st) = bpl \<and> 0 < bpl
        \<and> pos (src st) < length (data (src st)) \<and> data (src st) ! pos (src st) < 0xc0 \<longrightarrow>
      rle_loop 0 bpl st
        = rle_loop 1 bpl
            (st\<lparr>src := (src st)\<lparr>pos := pos (src st) + 1\<rparr>,
                buf := (buf st)[0 := data (src st) ! pos (src st)],
                count := 0, ch := data (src st) ! pos (src st)\<rparr>))
   \<and> (count st = 0 \<and> length (buf st) = bpl
        \<and> pos (src st) + 1 < length (data (src st)) \<and> data (src st) ! pos (src st) > 0xc0
        \<and> nat (uint (data (src st) ! pos (src st)) - 0xc0) \<le> bpl \<longrightarrow>
      rle_loop 0 bpl st
        = rle_loop (nat (uint (data (src st) ! pos (src st)) - 0xc0)) bpl
            (st\<lparr>src := (src st)\<lparr>pos := pos (src st) + 2\<rparr>,
                buf := replicate (nat (uint (data (src st) ! pos (src st)) - 0xc0))
                             (data (src st) ! (pos (src st) + 1))
                         @ drop (nat (uint (data (src st) ! pos (src st)) - 0xc0)) (buf st),
                count := 0, ch := data (src st) ! (pos (src st) + 1)\<rparr>))
   \<and> (Encoding pcxh = 0 \<and> y < height \<and> length (buf st) = bpl
        \<and> pos (src st) + bpl \<le> length (data (src st)) \<longrightarrow>
      decode_rows pcxh width src_bits bpl pt height y row st
        = (case reconstruct_row pcxh width src_bits bpl pt row
                  (st\<lparr>src := (src st)\<lparr>pos := pos (src st) + bpl\<rparr>,
                      buf := take bpl (drop (pos (src st)) (data (src st)))\<rparr>) of
             Ok st2 \<Rightarrow> decode_rows pcxh width src_bits bpl pt height (y + 1) (row + pt) st2
           | Err e st2 \<Rightarrow> Err e st2
           | Fault \<Rightarrow> Fault
           | Overflow \<Rightarrow> Overflow))
   \<and> (Encoding pcxh = 0 \<and> y < height \<and> length (buf st) = bpl
        \<and> pos (src st) \<le> length (data (src st))
        \<and> length (data (src st)) < pos (src st) + bpl \<longrightarrow>
      (\<exists>st'. decode_rows pcxh width src_bits bpl pt height y row st
                = Err ''file truncated'' st'))
   \<and> ((\<exists>s' wd'. load_pcx pcxh start s wd = Some (None, s', wd')
                \<and> sdl_error wd' = ''unsupported PCX format'')
            \<longleftrightarrow> \<not> ((BitsPerPixel pcxh = 1 \<and> 1 \<le> NPlanes pcxh \<and> NPlanes pcxh \<le> 4)
                   \<or> (BitsPerPixel pcxh = 8 \<and> NPlanes pcxh = 1)
                   \<or> (BitsPerPixel pcxh = 8 \<and> NPlanes pcxh = 3)))"
proof (intro conjI impI)
  assume "Encoding pcxh \<noteq> 0"
  then show "decode_rows pcxh width src_bits bpl pt height y row st
        = (if y < height then
             (case rle_loop 0 bpl st of
                Ok st1 \<Rightarrow>
                  (case reconstruct_row pcxh width src_bits bpl pt row st1 of
                     Ok st2 \<Rightarrow>
                       decode_rows pcxh width src_bits bpl pt height (y + 1) (row + pt) st2
                   | Err e st2 \<Rightarrow> Err e st2
                   | Fault \<Rightarrow> Fault
                   | Overflow \<Rightarrow> Overflow)
              | Err e st1 \<Rightarrow> Err e st1
              | Fault \<Rightarrow> Fault
              | Overflow \<Rightarrow> Overflow)
           else Ok st)"
    by (rule decode_rows_rle)
next
  assume "Encoding pcxh \<noteq> 0"
  then show "load_pcx pcxh start s wd
          = load_pcx (pcxh\<lparr>Encoding := PCX_RunLength_Encoding\<rparr>) start s wd"
    by (rule load_pcx_enc)
next
  assume "count st = 0 \<and> length (buf st) = bpl \<and> 0 < bpl
        \<and> pos (src st) < length (data (src st)) \<and> data (src st) ! pos (src st) < 0xc0"
  then show "rle_loop 0 bpl st
        = rle_loop 1 bpl
            (st\<lparr>src := (src st)\<lparr>pos := pos (src st) + 1\<rparr>,
                buf := (buf st)[0 := data (src st) ! pos (src st)],
                count := 0, ch := data (src st) ! pos (src st)\<rparr>)"
    by (intro rle_row_literal) simp_all
next
  assume "count st = 0 \<and> length (buf st) = bpl
        \<and> pos (src st) + 1 < length (data (src st)) \<and> data (src st) ! pos (src st) > 0xc0
        \<and> nat (uint (data (src st) ! pos (src st)) - 0xc0) \<le> bpl"
  then show "rle_loop 0 bpl st
        = rle_loop (nat (uint (data (src st) ! pos (src st)) - 0xc0)) bpl
            (st\<lparr>src := (src st)\<lparr>pos := pos (src st) + 2\<rparr>,
                buf := replicate (nat (uint (data (src st) ! pos (src st)) - 0xc0))
                             (data (src st) ! (pos (src st) + 1))
                         @ drop (nat (uint (data (src st) ! pos (src st)) - 0xc0)) (buf st),
                count := 0, ch := data (src st) ! (pos (src st) + 1)\<rparr>)"
    by (intro rle_row_run) simp_all
next
  assume "Encoding pcxh = 0 \<and> y < height \<and> length (buf st) = bpl
        \<and> pos (src st) + bpl \<le> length (data (src st))"
  then show "decode_rows pcxh width src_bits bpl pt height y row st
        = (case reconstruct_row pcxh width src_bits bpl pt row
                  (st\<lparr>src := (src st)\<lparr>pos := pos (src st) + bpl\<rparr>,
                      buf := take bpl (drop (pos (src st)) (data (src st)))\<rparr>) of
             Ok st2 \<Rightarrow> decode_rows pcxh width src_bits bpl pt height (y + 1) (row + pt) st2
           | Err e st2 \<Rightarrow> Err e st2
           | Fault \<Rightarrow> Fault
           | Overflow \<Rightarrow> Overflow)"
    by (intro decode_rows_raw) simp_all
next
  assume "Encoding pcxh = 0 \<and> y < height \<and> length (buf st) = bpl
        \<and> pos (src st) \<le> length (data (src st))
        \<and> length (data (src st)) < pos (src st) + bpl"
  then show "\<exists>st'. decode_rows pcxh width src_bits bpl pt height y row st
                = Err ''file truncated'' st'"
    by (intro decode_rows_raw_short) simp_all
next
  show "(\<exists>s' wd'. load_pcx pcxh start s wd = Some (None, s', wd')
                \<and> sdl_error wd' = ''unsupported PCX format'')
            \<longleftrightarrow> \<not> ((BitsPerPixel pcxh = 1 \<and> 1 \<le> NPlanes pcxh \<and> NPlanes pcxh \<le> 4)
                   \<or> (BitsPerPixel pcxh = 8 \<and> NPlanes pcxh = 1)
                   \<or> (BitsPerPixel pcxh = 8 \<and> NPlanes pcxh = 3))"
    using load_pcx_unsupported[of pcxh start s wd] by (simp only: pcx_format_None)
qed

theorem nonzero_encoding_is_run_length_witness:
  "Encoding (read_header (header_bytes 7 1 0 0 7 1 1 1)) \<noteq> 0
   \<and> decode_rows (read_header (header_bytes 7 1 0 0 7 1 1 1)) 8 1 1 8 2 0 0
        \<lparr>src = \<lparr>data = [0xC2, 0xFF], pos = 0\<rparr>, buf = [0],
         pix = [0, 0, 0, 0, 0, 0, 0, 0, 0, 0, 0, 0, 0, 0, 0, 0], count = 0, ch = 0\<rparr>
       = Ok \<lparr>src = \<lparr>data = [0xC2, 0xFF], pos = 2\<rparr>, buf = [0xFF],
              pix = [1, 1, 1, 1, 1, 1, 1, 1, 1, 1, 1, 1, 1, 1, 1, 1], count = 0, ch = 0xFF\<rparr>
   \<and> outcome (load_pcx (read_header (header_bytes 7 1 0 0 7 1 1 1)) 0
                 \<lparr>data = [0xC2, 0xFF], pos = 0\<rparr> world0)
       = Some (Some [1, 1, 1, 1, 1, 1, 1, 1, 1, 1, 1, 1, 1, 1, 1, 1], Some 2, [], 1, 0)
   \<and> rle_loop 0 3 \<lparr>src = \<lparr>data = [5, 0xC2, 0x41], pos = 0\<rparr>, buf = [0, 0, 0], pix = [],
                    count = 0, ch = 0\<rparr>
       = Ok \<lparr>src = \<lparr>data = [5, 0xC2, 0x41], pos = 3\<rparr>, buf = [5, 0x41, 0x41], pix = [],
              count = 0, ch = 0x41\<rparr>
   \<and> rle_loop 0 3 \<lparr>src = \<lparr>data = [0xC2, 0x41, 5], pos = 0\<rparr>, buf = [0, 0, 0], pix = [],
                    count = 0, ch = 0\<rparr>
       = Ok \<lparr>src = \<lparr>data = [0xC2, 0x41, 5], pos = 3\<rparr>, buf = [0x41, 0x41, 5], pix = [],
              count = 0, ch = 5\<rparr>
   \<and> Encoding (read_header (header_bytes 0 1 0 0 7 1 1 1)) = 0
   \<and> decode_rows (read_header (header_bytes 0 1 0 0 7 1 1 1)) 8 1 1 8 2 0 0
        \<lparr>src = \<lparr>data = [0xC2, 0xFF], pos = 0\<rparr>, buf = [0],
         pix = [0, 0, 0, 0, 0, 0, 0, 0, 0, 0, 0, 0, 0, 0, 0, 0], count = 0, ch = 0\<rparr>
       = Ok \<lparr>src = \<lparr>data = [0xC2, 0xFF], pos = 2\<rparr>, buf = [0xFF],
              pix = [1, 1, 0, 0, 0, 0, 1, 0, 1, 1, 1, 1, 1, 1, 1, 1], count = 0, ch = 0\<rparr>
   \<and> (\<exists>st'. decode_rows (read_header (header_bytes 0 1 0 0 7 1 1 1)) 8 1 1 8 2 0 0
                \<lparr>src = \<lparr>data = [], pos = 0\<rparr>, buf = [0],
                 pix = [0, 0, 0, 0, 0, 0, 0, 0, 0, 0, 0, 0, 0, 0, 0, 0], count = 0, ch = 0\<rparr>
              = Err ''file truncated'' st')
   \<and> \<not> (\<exists>s' wd'. load_pcx (read_header (header_bytes 7 1 0 0 7 1 1 1)) 0
                       \<lparr>data = [0xC2, 0xFF], pos = 0\<rparr> world0 = Some (None, s', wd')
                  \<and> sdl_error wd' = ''unsupported PCX format'')"
proof -
  let ?h7 = "read_header (header_bytes 7 1 0 0 7 1 1 1)"
  let ?h0 = "read_header (header_bytes 0 1 0 0 7 1 1 1)"
  let ?s = "\<lparr>data = [0xC2, 0xFF] :: u8 list, pos = 0\<rparr>"
  let ?st = "\<lparr>src = ?s, buf = [0],
         pix = [0, 0, 0, 0, 0, 0, 0, 0, 0, 0, 0, 0, 0, 0, 0, 0], count = 0, ch = 0\<rparr>"
  let ?short = "\<lparr>src = \<lparr>data = [], pos = 0\<rparr>, buf = [0],
         pix = [0, 0, 0, 0, 0, 0, 0, 0, 0, 0, 0, 0, 0, 0, 0, 0], count = 0, ch = 0\<rparr>"
  let ?lit = "\<lparr>src = \<lparr>data = [5, 0xC2, 0x41], pos = 0\<rparr>, buf = [0, 0, 0], pix = [],
                    count = 0, ch = 0\<rparr>"
  let ?run = "\<lparr>src = \<lparr>data = [0xC2, 0x41, 5], pos = 0\<rparr>, buf = [0, 0, 0], pix = [],
                    count = 0, ch = 0\<rparr>"
  have enc7: "Encoding ?h7 \<noteq> 0" by (simp add: read_header_def header_bytes_def)
  have enc0: "Encoding ?h0 = 0" by (simp add: read_header_def header_bytes_def)
  have fmt: "BitsPerPixel ?h7 = 1" "NPlanes ?h7 = 1"
    by (simp_all add: read_header_def header_bytes_def nth_append lo_hi_def)
  note rl = nonzero_encoding_is_run_length[where pcxh = ?h7 and width = 8 and src_bits = 1
      and bpl = 1 and pt = 8 and height = 2 and y = 0 and row = 0 and st = ?st
      and start = 0 and s = ?s and wd = world0]
  note rl1 = rl[THEN conjunct1, rule_format, OF enc7]
  note rows7 = rl1[THEN conjunct1] and load7 = rl1[THEN conjunct2]
  note unsup = rl[THEN conjunct2, THEN conjunct2, THEN conjunct2, THEN conjunct2, THEN conjunct2]
  have a: "decode_rows ?h7 8 1 1 8 2 0 0 ?st
       = Ok \<lparr>src = \<lparr>data = [0xC2, 0xFF], pos = 2\<rparr>, buf = [0xFF],
              pix = [1, 1, 1, 1, 1, 1, 1, 1, 1, 1, 1, 1, 1, 1, 1, 1], count = 0, ch = 0xFF\<rparr>"
    unfolding rows7 by code_simp
  have b: "outcome (load_pcx ?h7 0 ?s world0)
       = Some (Some [1, 1, 1, 1, 1, 1, 1, 1, 1, 1, 1, 1, 1, 1, 1, 1], Some 2, [], 1, 0)"
    unfolding load7 by code_simp
  have hl: "count ?lit = 0 \<and> length (buf ?lit) = 3 \<and> (0::nat) < 3
        \<and> pos (src ?lit) < length (data (src ?lit))
        \<and> data (src ?lit) ! pos (src ?lit) < 0xc0" by simp
  note lit = nonzero_encoding_is_run_length[where st = ?lit and bpl = 3,
      THEN conjunct2, THEN conjunct1, rule_format, OF hl]
  have c: "rle_loop 0 3 ?lit
       = Ok \<lparr>src = \<lparr>data = [5, 0xC2, 0x41], pos = 3\<rparr>, buf = [5, 0x41, 0x41], pix = [],
              count = 0, ch = 0x41\<rparr>"
    unfolding lit by code_simp
  have hr: "count ?run = 0 \<and> length (buf ?run) = 3
        \<and> pos (src ?run) + 1 < length (data (src ?run))
        \<and> data (src ?run) ! pos (src ?run) > 0xc0
        \<and> nat (uint (data (src ?run) ! pos (src ?run)) - 0xc0) \<le> 3" by simp
  note run = nonzero_encoding_is_run_length[where st = ?run and bpl = 3,
      THEN conjunct2, THEN conjunct2, THEN conjunct1, rule_format, OF hr]
  have d: "rle_loop 0 3 ?run
       = Ok \<lparr>src = \<lparr>data = [0xC2, 0x41, 5], pos = 3\<rparr>, buf = [0x41, 0x41, 5], pix = [],
              count = 0, ch = 5\<rparr>"
    unfolding run by code_simp
  have h0: "Encoding ?h0 = 0 \<and> (0::int) < 2 \<and> length (buf ?st) = 1
        \<and> pos (src ?st) + 1 \<le> length (data (src ?st))"
    using enc0 by simp
  note raw = nonzero_encoding_is_run_length[where pcxh = ?h0 and width = 8 and src_bits = 1
      and bpl = 1 and pt = 8 and height = 2 and y = 0 and row = 0 and st = ?st,
      THEN conjunct2, THEN conjunct2, THEN conjunct2, THEN conjunct1, rule_format, OF h0]
  have e: "decode_rows ?h0 8 1 1 8 2 0 0 ?st
       = Ok \<lparr>src = \<lparr>data = [0xC2, 0xFF], pos = 2\<rparr>, buf = [0xFF],
              pix = [1, 1, 0, 0, 0, 0, 1, 0, 1, 1, 1, 1, 1, 1, 1, 1], count = 0, ch = 0\<rparr>"
    unfolding raw by code_simp
  have hs: "Encoding ?h0 = 0 \<and> (0::int) < 2 \<and> length (buf ?short) = 1
        \<and> pos (src ?short) \<le> length (data (src ?short))
        \<and> length (data (src ?short)) < pos (src ?short) + 1"
    using enc0 by simp
  note f = nonzero_encoding_is_run_length[where pcxh = ?h0 and width = 8 and src_bits = 1
      and bpl = 1 and pt = 8 and height = 2 and y = 0 and row = 0 and st = ?short,
      THEN conjunct2, THEN conjunct2, THEN conjunct2, THEN conjunct2, THEN conjunct1,
      rule_format, OF hs]
  from unsup fmt
  have g: "\<not> (\<exists>s' wd'. load_pcx ?h7 0 ?s world0 = Some (None, s', wd')
                  \<and> sdl_error wd' = ''unsupported PCX format'')"
    by simp
  from enc7 a b c d enc0 e f g show ?thesis by (intro conjI)
qed

subsection \<open>Planes of one bit per pixel\<close>

text \<open>
  One byte of a plane.  Of its eight bits, \<open>r\<close> lie below the width (\<open>r = 8\<close> inside the
  line, less in a last, padded byte).  The loop passes over the bits \<open>7\<close> down to \<open>r\<close> and
  gives the next \<open>r\<close> pixels the bits \<open>r - 1\<close> down to \<open>0\<close>: pixel \<open>i\<close> of the byte gets
  bit \<open>r - 1 - i\<close>.  For \<open>r = 8\<close> that is bit \<open>7 - i\<close>, the most significant first; for a
  padded byte it is not.
\<close>

lemma expand_bits_skip:
  "0 \<le> k \<Longrightarrow> width \<le> j * 8 + k \<Longrightarrow>
   expand_bits width plane j byte row k x px = expand_bits width plane j byte row (k - 1) x px"
  by (subst expand_bits.simps) simp

lemma expand_bits_skips:
  "int n \<le> k + 1 \<Longrightarrow> width \<le> j * 8 + (k + 1 - int n) \<Longrightarrow>
   expand_bits width plane j byte row k x px
     = expand_bits width plane j byte row (k - int n) x px"
proof (induction n arbitrary: k)
  case 0
  then show ?case by simp
next
  case (Suc n)
  from Suc.prems have "0 \<le> k" "width \<le> j * 8 + k" by simp_all
  then have "expand_bits width plane j byte row k x px
      = expand_bits width plane j byte row (k - 1) x px" by (rule expand_bits_skip)
  also from Suc.prems have "\<dots> = expand_bits width plane j byte row (k - 1 - int n) x px"
    by (intro Suc.IH) simp_all
  finally show ?case by (simp add: algebra_simps)
qed

lemma expand_bits_take:
  "0 \<le> k \<Longrightarrow> j * 8 + k < width \<Longrightarrow> 0 \<le> row + x \<Longrightarrow> row + x < int (length px) \<Longrightarrow>
   expand_bits width plane j byte row k x px
     = expand_bits width plane j byte row (k - 1) (x + 1)
         (px[nat (row + x) := px ! nat (row + x) OR push_bit plane (drop_bit (nat k) byte AND 1)])"
  by (subst expand_bits.simps) (simp add: load_def store_def Let_def)

lemma expand_bits_low:
  "k = int n - 1 \<Longrightarrow> j * 8 + k < width \<Longrightarrow> 0 \<le> row + x
   \<Longrightarrow> row + x + int n \<le> int (length px)
   \<Longrightarrow> \<exists>px'. expand_bits width plane j byte row k x px = Some (x + int n, px')
          \<and> length px' = length px
          \<and> (\<forall>m < length px.
                px' ! m = (if row + x \<le> int m \<and> int m < row + x + int n
                           then px ! m OR push_bit plane
                                  (drop_bit (nat (row + x + int n - 1 - int m)) byte AND 1)
                           else px ! m))"
proof (induction n arbitrary: k x px)
  case 0
  then show ?case by (subst expand_bits.simps) simp
next
  case (Suc n)
  let ?px = "px[nat (row + x) := px ! nat (row + x) OR push_bit plane (drop_bit (nat k) byte AND 1)]"
  from Suc.prems have st: "expand_bits width plane j byte row k x px
      = expand_bits width plane j byte row (k - 1) (x + 1) ?px"
    by (intro expand_bits_take) simp_all
  from Suc.prems have "\<exists>px'. expand_bits width plane j byte row (k - 1) (x + 1) ?px
        = Some (x + 1 + int n, px')
          \<and> length px' = length ?px
          \<and> (\<forall>m < length ?px.
                px' ! m = (if row + (x + 1) \<le> int m \<and> int m < row + (x + 1) + int n
                           then ?px ! m OR push_bit plane
                                  (drop_bit (nat (row + (x + 1) + int n - 1 - int m)) byte AND 1)
                           else ?px ! m))"
    by (intro Suc.IH) simp_all
  then obtain px' where r: "expand_bits width plane j byte row (k - 1) (x + 1) ?px
        = Some (x + 1 + int n, px')" and len: "length px' = length px"
    and nth: "\<forall>m < length px.
                px' ! m = (if row + (x + 1) \<le> int m \<and> int m < row + (x + 1) + int n
                           then ?px ! m OR push_bit plane
                                  (drop_bit (nat (row + (x + 1) + int n - 1 - int m)) byte AND 1)
                           else ?px ! m)"
    by auto
  have "\<forall>m < length px.
                px' ! m = (if row + x \<le> int m \<and> int m < row + x + int (Suc n)
                           then px ! m OR push_bit plane
                                  (drop_bit (nat (row + x + int (Suc n) - 1 - int m)) byte AND 1)
                           else px ! m)"
  proof (intro allI impI)
    fix m assume m: "m < length px"
    show "px' ! m = (if row + x \<le> int m \<and> int m < row + x + int (Suc n)
                           then px ! m OR push_bit plane
                                  (drop_bit (nat (row + x + int (Suc n) - 1 - int m)) byte AND 1)
                           else px ! m)"
    proof (cases "int m = row + x")
      case True
      with Suc.prems have mm: "m = nat (row + x)" by simp
      from True Suc.prems have "nat (row + x + int (Suc n) - 1 - int m) = nat k" by simp
      with nth[rule_format, OF m] True m mm show ?thesis by simp
    next
      case False
      with Suc.prems have "m \<noteq> nat (row + x)" by auto
      with nth[rule_format, OF m] False show ?thesis
        by (auto simp: algebra_simps)
    qed
  qed
  with st r len show ?case by (simp add: algebra_simps)
qed

lemma expand_bits_byte:
  assumes r: "r = min 8 (max 0 (width - j * 8))"
    and row: "0 \<le> row + x" "row + x + r \<le> int (length px)"
  shows "\<exists>px'. expand_bits width plane j byte row 7 x px = Some (x + r, px')
          \<and> length px' = length px
          \<and> (\<forall>m < length px.
                px' ! m = (if row + x \<le> int m \<and> int m < row + x + r
                           then px ! m OR push_bit plane
                                  (drop_bit (nat (row + x + r - 1 - int m)) byte AND 1)
                           else px ! m))"
proof -
  from r have r8: "0 \<le> r" "r \<le> 8" by simp_all
  have skip: "expand_bits width plane j byte row 7 x px
      = expand_bits width plane j byte row (r - 1) x px"
  proof (cases "r = 8")
    case True
    then show ?thesis by simp
  next
    case False
    with r r8 have "width \<le> j * 8 + r" by (simp add: min_def max_def split: if_splits)
    with r8 expand_bits_skips[of "nat (8 - r)" 7 width j plane byte row x px] show ?thesis
      by simp
  qed
  show ?thesis
  proof (cases "r = 0")
    case True
    then show ?thesis unfolding skip by (subst expand_bits.simps) simp
  next
    case False
    with r r8 have "j * 8 + (r - 1) < width" by (simp add: min_def max_def split: if_splits)
    moreover from r8 have n: "int (nat r) = r" by simp
    ultimately show ?thesis
      using expand_bits_low[of "r - 1" "nat r" j width row x px plane byte] row
      unfolding skip n by (simp only: simp_thms)
  qed
qed

text \<open>
  Claim C5.  Two planes of one byte each, both \<open>0b10000000\<close>.  With a width of 8 the
  first pixel is 3, as the claim says.  With a width of 1 the byte's seven padding bits
  are its low bits, and the first pixel should again be 3; the test \<open>j * 8 + k >= width\<close>
  uses the bit's significance \<open>k\<close> instead of its column \<open>7 - k\<close>, so the decoder skips
  the high bits and stores the byte's lowest bit: the pixel is 0.  This is the case
  \<open>r = 1\<close> of \<open>expand_bits_byte\<close>.
\<close>

theorem padding_bits_taken_from_low_end:
  "outcome (IMG_LoadPCX_IO (Some \<lparr>data = header_bytes 1 1 0 0 7 0 2 1 @ [0x80, 0x80], pos = 0\<rparr>) world0)
     = Some (Some [3, 0, 0, 0, 0, 0, 0, 0], Some 130, [], 1, 0)
   \<and> outcome (IMG_LoadPCX_IO (Some \<lparr>data = header_bytes 1 1 0 0 0 0 2 1 @ [0x80, 0x80], pos = 0\<rparr>) world0)
     = Some (Some [0, 0, 0, 0], Some 130, [], 1, 0)"
  by code_simp

subsection \<open>The palette of an 8-bit image\<close>

lemma find_palette_found:
  assumes "pos s \<le> k" "k < length (data s)" "data s ! k = 12"
    and "\<forall>j. pos s \<le> j \<and> j < k \<longrightarrow> data s ! j \<noteq> 12"
  shows "find_palette s = s\<lparr>pos := k + 1\<rparr>"
  using assms
proof (induction "k - pos s" arbitrary: s)
  case 0
  then have "pos s = k" by simp
  with 0 show ?case
    by (subst find_palette.simps) (simp add: SDL_ReadIO_def read_one)
next
  case (Suc d)
  then have lt: "pos s < k" by simp
  with Suc.prems have ne: "data s ! pos s \<noteq> 12" by simp
  let ?s1 = "s\<lparr>pos := pos s + 1\<rparr>"
  from lt Suc.prems ne have "find_palette s = find_palette ?s1"
    by (subst find_palette.simps) (simp add: SDL_ReadIO_def read_one)
  also from Suc.hyps Suc.prems lt have "find_palette ?s1 = ?s1\<lparr>pos := k + 1\<rparr>"
    by (intro Suc.hyps(1)) auto
  finally show ?case by simp
qed

lemma find_palette_missing:
  assumes "\<forall>j. pos s \<le> j \<and> j < length (data s) \<longrightarrow> data s ! j \<noteq> 12"
  shows "find_palette s = s\<lparr>pos := length (data s) - 768\<rparr>"
  using assms
proof (induction "length (data s) - pos s" arbitrary: s)
  case 0
  then show ?case
    by (subst find_palette.simps) (simp add: SDL_ReadIO_def SDL_SeekIO_def)
next
  case (Suc d)
  then have lt: "pos s < length (data s)" by simp
  with Suc.prems have ne: "data s ! pos s \<noteq> 12" by simp
  let ?s1 = "s\<lparr>pos := pos s + 1\<rparr>"
  from lt ne have "find_palette s = find_palette ?s1"
    by (subst find_palette.simps) (simp add: SDL_ReadIO_def read_one)
  also from Suc.hyps Suc.prems lt have "find_palette ?s1 = ?s1\<lparr>pos := length (data ?s1) - 768\<rparr>"
    by (intro Suc.hyps(1)) auto
  finally show ?case by simp
qed

lemma set_colors_length: "length (set_colors cm n i cs) = length cs"
  by (induction cm n i cs rule: set_colors.induct) (subst set_colors.simps, simp)

lemma set_colors_nth:
  "0 \<le> i \<Longrightarrow> j < length cs \<Longrightarrow>
   set_colors cm n i cs ! j =
     (if i \<le> int j \<and> int j < n
      then (cm ! (3 * j), cm ! (3 * j + 1), cm ! (3 * j + 2)) else cs ! j)"
proof (induction cm n i cs rule: set_colors.induct)
  case (1 cm n i cs)
  show ?case
  proof (cases "i < n")
    case True
    with "1.prems" "1.IH" show ?thesis
      apply (subst set_colors.simps)
      apply (cases "int j = i")
       apply (auto simp: nat_add_distrib nat_mult_distrib mult.commute nth_list_update)
      done
  next
    case False
    then show ?thesis by (subst set_colors.simps) auto
  qed
qed

lemma set_colors_256:
  "length cs = 256 \<Longrightarrow> set_colors cm 256 0 cs = rgb_triples cm"
  by (rule nth_equalityI) (simp_all add: set_colors_length set_colors_nth rgb_triples_def)

lemma marker_before:
  assumes "12 \<notin> set (take (k - pos s) (drop (pos s) (data s)))" "k \<le> length (data s)"
  shows "\<forall>j. pos s \<le> j \<and> j < k \<longrightarrow> data s ! j \<noteq> 12"
proof (intro allI impI)
  fix j assume j: "pos s \<le> j \<and> j < k"
  let ?xs = "take (k - pos s) (drop (pos s) (data s))"
  from j assms(2) have "j - pos s < length ?xs" by auto
  moreover from j assms(2) have "?xs ! (j - pos s) = data s ! j" by auto
  ultimately have "data s ! j \<in> set ?xs" by (metis nth_mem)
  with assms(1) show "data s ! j \<noteq> 12" by auto
qed

lemma pcx_palette_found:
  assumes mem: "palette_mem wd"
    and k: "pos s \<le> k" "k < length (data s)" "data s ! k = 12"
    and first: "12 \<notin> set (take (k - pos s) (drop (pos s) (data s)))"
  shows "if k + 769 \<le> length (data s)
         then pcx_palette pcxh 8 surface s wd
              = (None,
                 surface\<lparr>palette := Some \<lparr>ncolors = 256,
                     colors = rgb_triples (take 768 (drop (k + 1) (data s)))\<rparr>\<rparr>,
                 s\<lparr>pos := k + 769\<rparr>, wd)
         else fst (pcx_palette pcxh 8 surface s wd) = Some ''file truncated''"
proof -
  from marker_before[OF first] k have "\<forall>j. pos s \<le> j \<and> j < k \<longrightarrow> data s ! j \<noteq> 12" by simp
  from find_palette_found[OF k this] have f: "find_palette s = s\<lparr>pos := k + 1\<rparr>" .
  show ?thesis
    using mem k
    by (auto simp: pcx_palette_def SDL_CreateSurfacePalette_def f SDL_ReadIO_def Let_def
        set_colors_256 min_def)
qed

lemma pcx_palette_missing:
  assumes mem: "palette_mem wd"
    and none: "12 \<notin> set (drop (pos s) (data s))"
  shows "if 768 \<le> length (data s)
         then pcx_palette pcxh 8 surface s wd
              = (None,
                 surface\<lparr>palette := Some \<lparr>ncolors = 256,
                     colors = rgb_triples (drop (length (data s) - 768) (data s))\<rparr>\<rparr>,
                 s\<lparr>pos := length (data s)\<rparr>, wd)
         else fst (pcx_palette pcxh 8 surface s wd) = Some ''file truncated''"
proof -
  from none have "12 \<notin> set (take (length (data s) - pos s) (drop (pos s) (data s)))" by simp
  from marker_before[OF this]
  have "\<forall>j. pos s \<le> j \<and> j < length (data s) \<longrightarrow> data s ! j \<noteq> 12" by simp
  from find_palette_missing[OF this] have f: "find_palette s = s\<lparr>pos := length (data s) - 768\<rparr>" .
  show ?thesis
    using mem
    by (auto simp: pcx_palette_def SDL_CreateSurfacePalette_def f SDL_ReadIO_def Let_def
        set_colors_256 min_def)
qed

lemma load_pcx_indexed8:
  assumes fmt: "BitsPerPixel pcxh = 8" "NPlanes pcxh = 1"
    and surf: "SDL_CreateSurface (sint (Xmax pcxh) - sint (Xmin pcxh) + 1)
                 (sint (Ymax pcxh) - sint (Ymin pcxh) + 1) SDL_PIXELFORMAT_INDEX8 wd
               = (Some surface, wd1)"
    and mem: "SDL_calloc (size_t (sint (BytesPerLine pcxh))) wd1 = (Some b, wd2)"
    and rows: "decode_rows pcxh (sint (Xmax pcxh) - sint (Xmin pcxh) + 1) 8
                 (nat (size_t (sint (BytesPerLine pcxh)))) (pitch surface) (h surface) 0 0
                 \<lparr>src = s0, buf = b, pix = pixels surface, count = 0, ch = 0\<rparr> = Ok st"
  shows "load_pcx pcxh start s0 wd
       = (case pcx_palette pcxh 8 (surface\<lparr>pixels := pix st\<rparr>) (src st) wd2 of
            (error, surface2, s2, wd3) \<Rightarrow>
              Some (at_done error (Some surface2) (Some (buf st)) s2 start wd3))"
  using assms by (simp add: load_pcx_def pcx_format_def Let_def)

lemma at_done_failed:
  "\<exists>s' wd'. at_done (Some e) sf bf s start wd = (None, s', wd') \<and> sdl_error wd' = e"
  by (simp add: at_done_def Let_def SDL_SetError_def)

text \<open>
  Claim C7.  Take a header of eight bits per pixel and one plane, let the surface and the
  scratch buffer be allocated and all rows be decoded, leaving the state \<open>st\<close>, and let
  the palette be allocated.  If the first byte 12 at or after the cursor of \<open>st\<close> is at
  index \<open>k\<close>, and 768 bytes follow it, the decode returns the surface with the palette of
  the 256 triples of these bytes and the cursor behind them; if fewer follow, it returns
  \<open>NULL\<close> with the error \<open>file truncated\<close>.  If there is no byte 12 from the cursor on,
  the palette is that of the last 768 bytes of the stream, and with a stream of fewer
  than 768 bytes the decode returns \<open>NULL\<close> with \<open>file truncated\<close>.
\<close>

theorem palette_of_indexed8:
  assumes fmt: "BitsPerPixel pcxh = 8" "NPlanes pcxh = 1"
    and surf: "SDL_CreateSurface (sint (Xmax pcxh) - sint (Xmin pcxh) + 1)
                 (sint (Ymax pcxh) - sint (Ymin pcxh) + 1) SDL_PIXELFORMAT_INDEX8 wd
               = (Some surface, wd1)"
    and mem: "SDL_calloc (size_t (sint (BytesPerLine pcxh))) wd1 = (Some b, wd2)"
    and rows: "decode_rows pcxh (sint (Xmax pcxh) - sint (Xmin pcxh) + 1) 8
                 (nat (size_t (sint (BytesPerLine pcxh)))) (pitch surface) (h surface) 0 0
                 \<lparr>src = s0, buf = b, pix = pixels surface, count = 0, ch = 0\<rparr> = Ok st"
    and pal: "palette_mem wd2"
  shows "(pos (src st) \<le> k \<and> k < length (data (src st)) \<and> data (src st) ! k = 12
            \<and> 12 \<notin> set (take (k - pos (src st)) (drop (pos (src st)) (data (src st))))
          \<longrightarrow> (if k + 769 \<le> length (data (src st))
               then load_pcx pcxh start s0 wd
                    = Some (Some (surface\<lparr>pixels := pix st,
                                    palette := Some \<lparr>ncolors = 256,
                                      colors = rgb_triples
                                        (take 768 (drop (k + 1) (data (src st))))\<rparr>\<rparr>),
                            Some ((src st)\<lparr>pos := k + 769\<rparr>),
                            SDL_free (Some (buf st)) wd2)
               else (\<exists>s' wd'. load_pcx pcxh start s0 wd = Some (None, s', wd')
                        \<and> sdl_error wd' = ''file truncated'')))
       \<and> (12 \<notin> set (drop (pos (src st)) (data (src st)))
          \<longrightarrow> (if 768 \<le> length (data (src st))
               then load_pcx pcxh start s0 wd
                    = Some (Some (surface\<lparr>pixels := pix st,
                                    palette := Some \<lparr>ncolors = 256,
                                      colors = rgb_triples
                                        (drop (length (data (src st)) - 768)
                                           (data (src st)))\<rparr>\<rparr>),
                            Some ((src st)\<lparr>pos := length (data (src st))\<rparr>),
                            SDL_free (Some (buf st)) wd2)
               else (\<exists>s' wd'. load_pcx pcxh start s0 wd = Some (None, s', wd')
                        \<and> sdl_error wd' = ''file truncated'')))"
proof -
  let ?sf = "surface\<lparr>pixels := pix st\<rparr>"
  let ?P = "pcx_palette pcxh 8 ?sf (src st) wd2"
  note dec = load_pcx_indexed8[OF fmt surf mem rows, of start]
  have failed: "\<exists>s' wd'. load_pcx pcxh start s0 wd = Some (None, s', wd')
                        \<and> sdl_error wd' = ''file truncated''"
    if "fst ?P = Some ''file truncated''"
  proof -
    have "?P = (fst ?P, fst (snd ?P), fst (snd (snd ?P)), snd (snd (snd ?P)))" by simp
    with that obtain sf2 s2 wd3 where "?P = (Some ''file truncated'', sf2, s2, wd3)"
      by metis
    then show ?thesis
      using at_done_failed[of "''file truncated''" "Some sf2" "Some (buf st)" s2 start wd3]
      by (simp add: dec)
  qed
  have found: "if k + 769 \<le> length (data (src st))
               then load_pcx pcxh start s0 wd
                    = Some (Some (surface\<lparr>pixels := pix st,
                                    palette := Some \<lparr>ncolors = 256,
                                      colors = rgb_triples
                                        (take 768 (drop (k + 1) (data (src st))))\<rparr>\<rparr>),
                            Some ((src st)\<lparr>pos := k + 769\<rparr>),
                            SDL_free (Some (buf st)) wd2)
               else (\<exists>s' wd'. load_pcx pcxh start s0 wd = Some (None, s', wd')
                        \<and> sdl_error wd' = ''file truncated'')"
    if "pos (src st) \<le> k" "k < length (data (src st))" "data (src st) ! k = 12"
      "12 \<notin> set (take (k - pos (src st)) (drop (pos (src st)) (data (src st))))"
    using pcx_palette_found[OF pal that, of pcxh ?sf] failed
    by (auto simp: dec at_done_def Let_def split: if_splits)
  have missing: "if 768 \<le> length (data (src st))
               then load_pcx pcxh start s0 wd
                    = Some (Some (surface\<lparr>pixels := pix st,
                                    palette := Some \<lparr>ncolors = 256,
                                      colors = rgb_triples
                                        (drop (length (data (src st)) - 768)
                                           (data (src st)))\<rparr>\<rparr>),
                            Some ((src st)\<lparr>pos := length (data (src st))\<rparr>),
                            SDL_free (Some (buf st)) wd2)
               else (\<exists>s' wd'. load_pcx pcxh start s0 wd = Some (None, s', wd')
                        \<and> sdl_error wd' = ''file truncated'')"
    if "12 \<notin> set (drop (pos (src st)) (data (src st)))"
    using pcx_palette_missing[OF pal that, of pcxh ?sf] failed
    by (auto simp: dec at_done_def Let_def split: if_splits)
  from found missing show ?thesis by blast
qed

lemma length_header_bytes: "length (header_bytes a b c d e f g i) = 128"
  by (simp add: header_bytes_def lo_hi_def)

lemma length_sample_palette: "length sample_palette = 768"
  by (simp add: sample_palette_def length_concat sum_list_replicate)

lemma set_sample_palette: "set sample_palette = {1, 2, 3}"
  by (auto simp: sample_palette_def)

theorem palette_of_indexed8_witness:
  "load_pcx (read_header (header_bytes 0 8 0 0 1 0 1 2)) 0
      \<lparr>data = header_bytes 0 8 0 0 1 0 1 2 @ [5, 6, 7, 12] @ sample_palette, pos = 128\<rparr> world0
    = Some (Some \<lparr>format = SDL_PIXELFORMAT_INDEX8, w = 2, h = 1, pitch = 4,
                  pixels = [5, 6, 0, 0],
                  palette = Some \<lparr>ncolors = 256, colors = rgb_triples sample_palette\<rparr>\<rparr>,
            Some \<lparr>data = header_bytes 0 8 0 0 1 0 1 2 @ [5, 6, 7, 12] @ sample_palette,
                  pos = 900\<rparr>,
            world0\<lparr>live_surfaces := 1\<rparr>)
   \<and> load_pcx (read_header (header_bytes 0 8 0 0 1 0 1 2)) 0
      \<lparr>data = header_bytes 0 8 0 0 1 0 1 2 @ [5, 6, 7, 7] @ sample_palette, pos = 128\<rparr> world0
    = Some (Some \<lparr>format = SDL_PIXELFORMAT_INDEX8, w = 2, h = 1, pitch = 4,
                  pixels = [5, 6, 0, 0],
                  palette = Some \<lparr>ncolors = 256, colors = rgb_triples sample_palette\<rparr>\<rparr>,
            Some \<lparr>data = header_bytes 0 8 0 0 1 0 1 2 @ [5, 6, 7, 7] @ sample_palette,
                  pos = 900\<rparr>,
            world0\<lparr>live_surfaces := 1\<rparr>)"
proof -
  let ?hb = "header_bytes 0 8 0 0 1 0 1 2"
  let ?h = "read_header ?hb"
  let ?sf = "\<lparr>format = SDL_PIXELFORMAT_INDEX8, w = 2, h = 1, pitch = 4,
              pixels = [0, 0, 0, 0], palette = None\<rparr>"
  let ?wd1 = "world0\<lparr>live_surfaces := 1\<rparr>"
  let ?wd2 = "world0\<lparr>live_surfaces := 1, live_buffers := 1\<rparr>"
  let ?da = "?hb @ [5, 6, 7, 12] @ sample_palette"
  let ?db = "?hb @ [5, 6, 7, 7] @ sample_palette"
  let ?sta = "\<lparr>src = \<lparr>data = ?da, pos = 130\<rparr>, buf = [5, 6], pix = [5, 6, 0, 0],
               count = 0, ch = 0\<rparr>"
  let ?stb = "\<lparr>src = \<lparr>data = ?db, pos = 130\<rparr>, buf = [5, 6], pix = [5, 6, 0, 0],
               count = 0, ch = 0\<rparr>"
  note len = length_header_bytes length_sample_palette
  have fmt: "BitsPerPixel ?h = 8" "NPlanes ?h = 1" by code_simp+
  have enc: "Encoding ?h = 0" by code_simp
  have geo: "sint (Xmax ?h) - sint (Xmin ?h) + 1 = 2" "sint (Ymax ?h) - sint (Ymin ?h) + 1 = 1"
    "size_t (sint (BytesPerLine ?h)) = 2" by code_simp+
  have surf: "SDL_CreateSurface (sint (Xmax ?h) - sint (Xmin ?h) + 1)
                 (sint (Ymax ?h) - sint (Ymin ?h) + 1) SDL_PIXELFORMAT_INDEX8 world0
               = (Some ?sf, ?wd1)" unfolding geo by code_simp
  have mem: "SDL_calloc (size_t (sint (BytesPerLine ?h))) ?wd1 = (Some [0, 0], ?wd2)"
    unfolding geo by code_simp
  have pal: "palette_mem ?wd2" by code_simp
  have rowsa: "decode_rows ?h (sint (Xmax ?h) - sint (Xmin ?h) + 1) 8
                 (nat (size_t (sint (BytesPerLine ?h)))) (pitch ?sf) (h ?sf) 0 0
                 \<lparr>src = \<lparr>data = ?da, pos = 128\<rparr>, buf = [0, 0], pix = pixels ?sf,
                  count = 0, ch = 0\<rparr> = Ok ?sta"
    unfolding geo
    by (simp add: decode_rows.simps decode_scanline_def enc read_raw_def SDL_ReadIO_def len
        reconstruct_row_def copy_row_def size_t_def)
  have rowsb: "decode_rows ?h (sint (Xmax ?h) - sint (Xmin ?h) + 1) 8
                 (nat (size_t (sint (BytesPerLine ?h)))) (pitch ?sf) (h ?sf) 0 0
                 \<lparr>src = \<lparr>data = ?db, pos = 128\<rparr>, buf = [0, 0], pix = pixels ?sf,
                  count = 0, ch = 0\<rparr> = Ok ?stb"
    unfolding geo
    by (simp add: decode_rows.simps decode_scanline_def enc read_raw_def SDL_ReadIO_def len
        reconstruct_row_def copy_row_def size_t_def)
  have ka: "pos (src ?sta) \<le> 131 \<and> 131 < length (data (src ?sta)) \<and> data (src ?sta) ! 131 = 12
            \<and> 12 \<notin> set (take (131 - pos (src ?sta)) (drop (pos (src ?sta)) (data (src ?sta))))"
    by (simp add: len nth_append)
  have la: "131 + 769 \<le> length (data (src ?sta))" by (simp add: len)
  have ta: "take 768 (drop (131 + 1) (data (src ?sta))) = sample_palette"
    by (simp add: len)
  have kb: "12 \<notin> set (drop (pos (src ?stb)) (data (src ?stb)))"
    by (simp add: len set_sample_palette)
  have lb: "768 \<le> length (data (src ?stb))" "length (data (src ?stb)) = 900"
    by (simp_all add: len)
  have tb: "drop (length (data (src ?stb)) - 768) (data (src ?stb)) = sample_palette"
    by (simp add: len)
  have fr: "SDL_free (Some (buf ?sta)) ?wd2 = ?wd1" "SDL_free (Some (buf ?stb)) ?wd2 = ?wd1"
    by (simp_all add: SDL_free_def world0_def)
  from palette_of_indexed8[OF fmt surf mem rowsa pal, of 131 0] ka la
  have a: "load_pcx ?h 0 \<lparr>data = ?da, pos = 128\<rparr> world0
    = Some (Some (?sf\<lparr>pixels := pix ?sta,
                      palette := Some \<lparr>ncolors = 256,
                        colors = rgb_triples (take 768 (drop (131 + 1) (data (src ?sta))))\<rparr>\<rparr>),
            Some ((src ?sta)\<lparr>pos := 131 + 769\<rparr>), SDL_free (Some (buf ?sta)) ?wd2)"
    by (simp only: if_True simp_thms)
  from palette_of_indexed8[OF fmt surf mem rowsb pal, of 0 0] kb lb(1)
  have b: "load_pcx ?h 0 \<lparr>data = ?db, pos = 128\<rparr> world0
    = Some (Some (?sf\<lparr>pixels := pix ?stb,
                      palette := Some \<lparr>ncolors = 256,
                        colors = rgb_triples (drop (length (data (src ?stb)) - 768)
                                                (data (src ?stb)))\<rparr>\<rparr>),
            Some ((src ?stb)\<lparr>pos := length (data (src ?stb))\<rparr>),
            SDL_free (Some (buf ?stb)) ?wd2)"
    by (simp only: if_True simp_thms)
  show ?thesis
    unfolding a b ta fr by (simp add: len)
qed

subsection \<open>Three planes of eight bits\<close>

lemma int_range_split:
  fixes x :: int
  assumes "x < width"
  shows "(\<forall>x'. x \<le> x' \<and> x' < width \<longrightarrow> Q x')
     \<longleftrightarrow> (Q x \<and> (\<forall>x'. x + 1 \<le> x' \<and> x' < width \<longrightarrow> Q x'))"
proof
  assume a: "\<forall>x'. x \<le> x' \<and> x' < width \<longrightarrow> Q x'"
  with assms show "Q x \<and> (\<forall>x'. x + 1 \<le> x' \<and> x' < width \<longrightarrow> Q x')" by auto
next
  assume b: "Q x \<and> (\<forall>x'. x + 1 \<le> x' \<and> x' < width \<longrightarrow> Q x')"
  show "\<forall>x'. x \<le> x' \<and> x' < width \<longrightarrow> Q x'"
  proof (intro allI impI)
    fix x' assume "x \<le> x' \<and> x' < width"
    then have "x' = x \<or> (x + 1 \<le> x' \<and> x' < width)" by arith
    with b show "Q x'" by blast
  qed
qed

lemma deinterlace_plane_result:
  assumes "0 \<le> innerSrc" "0 \<le> x" "0 \<le> dst" "0 \<le> nplanes" "int (length bf) = end1"
    "0 \<le> row" "row + end2 \<le> int (length px)"
  shows "if (\<forall>x'. x \<le> x' \<and> x' < width
               \<longrightarrow> innerSrc + x' < end1 \<and> dst + (x' - x) * nplanes < end2)
         then (\<exists>px'. deinterlace_plane width nplanes end1 end2 bf row innerSrc x dst px = Ok px'
                  \<and> length px' = length px)
         else (\<exists>px'. deinterlace_plane width nplanes end1 end2 bf row innerSrc x dst px
                    = Err ''decoding out of bounds (corrupt?)'' px'
                  \<and> length px' = length px)"
  using assms
proof (induction width nplanes end1 end2 bf row innerSrc x dst px rule: deinterlace_plane.induct)
  case (1 width nplanes end1 end2 bf row innerSrc x dst px)
  let ?Q = "\<lambda>x'. innerSrc + x' < end1 \<and> dst + (x' - x) * nplanes < end2"
  note unfold = deinterlace_plane.simps[of width nplanes end1 end2 bf row innerSrc x dst px]
  show ?case
  proof (cases "x < width")
    case False
    then have "deinterlace_plane width nplanes end1 end2 bf row innerSrc x dst px = Ok px"
      by (simp add: unfold)
    with False show ?thesis by simp
  next
    case True
    note split = int_range_split[OF True, of ?Q]
    show ?thesis
    proof (cases "innerSrc + x \<ge> end1 \<or> dst \<ge> end2")
      case True
      then have "\<not> ?Q x" by auto
      moreover from True \<open>x < width\<close>
      have "deinterlace_plane width nplanes end1 end2 bf row innerSrc x dst px
          = Err ''decoding out of bounds (corrupt?)'' px"
        by (simp add: unfold)
      ultimately show ?thesis unfolding split by auto
    next
      case False
      with "1.prems" have ld: "load bf (innerSrc + x) = Some (bf ! nat (innerSrc + x))"
        by (auto simp: load_def)
      from False "1.prems" have st: "store px (row + dst) (bf ! nat (innerSrc + x))
          = Some (px[nat (row + dst) := bf ! nat (innerSrc + x)])"
        by (auto simp: store_def)
      let ?px = "px[nat (row + dst) := bf ! nat (innerSrc + x)]"
      have unf: "deinterlace_plane width nplanes end1 end2 bf row innerSrc x dst px
          = deinterlace_plane width nplanes end1 end2 bf row innerSrc (x + 1) (dst + nplanes) ?px"
        using \<open>x < width\<close> False by (simp add: unfold ld st)
      have eq: "\<And>x'. dst + nplanes + (x' - (x + 1)) * nplanes = dst + (x' - x) * nplanes"
        by (simp add: algebra_simps)
      from "1.prems" have pre: "0 \<le> innerSrc" "0 \<le> x + 1" "0 \<le> dst + nplanes" "0 \<le> nplanes"
        "int (length bf) = end1" "0 \<le> row" "row + end2 \<le> int (length ?px)" by auto
      note ih = "1.IH"[OF \<open>x < width\<close> False ld st pre, unfolded eq]
      from False have qx: "?Q x" by auto
      let ?R = "\<forall>x'. x + 1 \<le> x' \<and> x' < width \<longrightarrow> ?Q x'"
      let ?rec = "deinterlace_plane width nplanes end1 end2 bf row innerSrc (x + 1)
                    (dst + nplanes) ?px"
      show ?thesis
      proof (cases ?R)
        case True
        with ih obtain px' where "?rec = Ok px'" "length px' = length px" by auto
        moreover from True qx have "\<forall>x'. x \<le> x' \<and> x' < width \<longrightarrow> ?Q x'"
          unfolding split by blast
        ultimately show ?thesis unfolding unf by simp
      next
        case False
        with ih obtain px' where "?rec = Err ''decoding out of bounds (corrupt?)'' px'"
          "length px' = length px" by auto
        moreover from False have "\<not> (\<forall>x'. x \<le> x' \<and> x' < width \<longrightarrow> ?Q x')"
          unfolding split by blast
        ultimately show ?thesis unfolding unf by simp
      qed
    qed
  qed
qed

lemma deinterlace_result:
  assumes "0 \<le> innerSrc" "0 \<le> plane" "0 \<le> bytesperline" "int (length bf) = end1"
    "0 \<le> row" "row + end2 \<le> int (length px)"
  shows "if (\<forall>p. plane \<le> p \<and> p < nplanes
               \<longrightarrow> (\<forall>x. 0 \<le> x \<and> x < width
                     \<longrightarrow> innerSrc + (p - plane) * bytesperline + x < end1
                         \<and> p + x * nplanes < end2))
         then (\<exists>px'. deinterlace width nplanes bytesperline end1 end2 bf row plane innerSrc px
                    = Ok px' \<and> length px' = length px)
         else (\<exists>px'. deinterlace width nplanes bytesperline end1 end2 bf row plane innerSrc px
                    = Err ''decoding out of bounds (corrupt?)'' px' \<and> length px' = length px)"
  using assms
proof (induction width nplanes bytesperline end1 end2 bf row plane innerSrc px
       rule: deinterlace.induct)
  case (1 width nplanes bytesperline end1 end2 bf row plane innerSrc px)
  let ?Q = "\<lambda>p. \<forall>x. 0 \<le> x \<and> x < width
              \<longrightarrow> innerSrc + (p - plane) * bytesperline + x < end1 \<and> p + x * nplanes < end2"
  note unfold = deinterlace.simps[of width nplanes bytesperline end1 end2 bf row plane innerSrc px]
  show ?case
  proof (cases "plane < nplanes")
    case False
    then have "deinterlace width nplanes bytesperline end1 end2 bf row plane innerSrc px = Ok px"
      by (simp add: unfold)
    with False show ?thesis by simp
  next
    case True
    note split = int_range_split[OF True, of ?Q]
    let ?inner = "deinterlace_plane width nplanes end1 end2 bf row innerSrc 0 plane px"
    from True "1.prems" have np: "0 \<le> nplanes" by simp
    have inner: "if ?Q plane
        then (\<exists>px'. ?inner = Ok px' \<and> length px' = length px)
        else (\<exists>px'. ?inner = Err ''decoding out of bounds (corrupt?)'' px'
                  \<and> length px' = length px)"
      using deinterlace_plane_result[OF "1.prems"(1) order_refl "1.prems"(2) np
        "1.prems"(4,5,6), of width] by simp
    show ?thesis
    proof (cases "?Q plane")
      case False
      with inner have "\<exists>px'. ?inner = Err ''decoding out of bounds (corrupt?)'' px'
                  \<and> length px' = length px" by (simp only: if_False if_True)
      then obtain px' where "?inner = Err ''decoding out of bounds (corrupt?)'' px'"
        "length px' = length px" by blast
      with True have "deinterlace width nplanes bytesperline end1 end2 bf row plane innerSrc px
          = Err ''decoding out of bounds (corrupt?)'' px'" by (simp add: unfold)
      moreover from False have "\<not> (\<forall>p. plane \<le> p \<and> p < nplanes \<longrightarrow> ?Q p)"
        unfolding split by blast
      ultimately show ?thesis using \<open>length px' = length px\<close> by simp
    next
      case qtrue: True
      with inner have "\<exists>px'. ?inner = Ok px' \<and> length px' = length px"
        by (simp only: if_False if_True)
      then obtain px' where in_ok: "?inner = Ok px'" and len: "length px' = length px"
        by blast
      with True have unf: "deinterlace width nplanes bytesperline end1 end2 bf row plane innerSrc px
          = deinterlace width nplanes bytesperline end1 end2 bf row (plane + 1)
              (innerSrc + bytesperline) px'" by (simp add: unfold)
      have eq: "\<And>p. innerSrc + bytesperline + (p - (plane + 1)) * bytesperline
                 = innerSrc + (p - plane) * bytesperline"
        by (simp add: algebra_simps)
      from "1.prems" len have pre: "0 \<le> innerSrc + bytesperline" "0 \<le> plane + 1"
        "0 \<le> bytesperline" "int (length bf) = end1" "0 \<le> row" "row + end2 \<le> int (length px')"
        by auto
      note ih = "1.IH"[OF True in_ok pre, unfolded eq len]
      let ?R = "\<forall>p. plane + 1 \<le> p \<and> p < nplanes \<longrightarrow> ?Q p"
      let ?rec = "deinterlace width nplanes bytesperline end1 end2 bf row (plane + 1)
              (innerSrc + bytesperline) px'"
      show ?thesis
      proof (cases ?R)
        case True
        with ih have "\<exists>px''. ?rec = Ok px'' \<and> length px'' = length px"
          by (simp only: if_False if_True)
        then obtain px'' where "?rec = Ok px''" "length px'' = length px" by blast
        moreover from True qtrue have "\<forall>p. plane \<le> p \<and> p < nplanes \<longrightarrow> ?Q p"
          unfolding split by blast
        ultimately show ?thesis unfolding unf by simp
      next
        case False
        with ih have "\<exists>px''. ?rec = Err ''decoding out of bounds (corrupt?)'' px''
                    \<and> length px'' = length px" by (simp only: if_False if_True)
        then obtain px'' where "?rec = Err ''decoding out of bounds (corrupt?)'' px''"
          "length px'' = length px" by blast
        moreover from False have "\<not> (\<forall>p. plane \<le> p \<and> p < nplanes \<longrightarrow> ?Q p)"
          unfolding split by blast
        ultimately show ?thesis unfolding unf by simp
      qed
    qed
  qed
qed

lemma reconstruct_row_rgb:
  assumes np: "NPlanes pcxh = 3" and bpl: "0 \<le> sint (BytesPerLine pcxh)"
    and lenb: "length (buf st) = bpl"
    and row: "0 \<le> row" "row + pt \<le> int (length (pix st))"
  shows "if (\<forall>p. 0 \<le> p \<and> p < 3
               \<longrightarrow> (\<forall>x. 0 \<le> x \<and> x < width
                     \<longrightarrow> p * sint (BytesPerLine pcxh) + x < int bpl \<and> p + x * 3 < pt))
         then (\<exists>st'. reconstruct_row pcxh width 24 bpl pt row st = Ok st')
         else (\<exists>st'. reconstruct_row pcxh width 24 bpl pt row st
                    = Err ''decoding out of bounds (corrupt?)'' st')"
proof -
  have "int (length (buf st)) = int bpl" using lenb by simp
  from deinterlace_result[OF order_refl order_refl bpl this row, of 3 width] np
  show ?thesis
    by (auto simp: reconstruct_row_def split: if_splits)
qed

lemma rle_loop_keeps:
  "rle_loop i bpl st = Ok st' \<Longrightarrow> length (buf st') = length (buf st) \<and> pix st' = pix st"
proof (induction i bpl st rule: rle_loop.induct)
  case (1 i bpl st)
  from "1.prems" show ?case
    apply (subst (asm) rle_loop.simps)
    apply (auto split: if_splits result.splits option.splits dest!: "1.IH")
       apply (auto simp: rle_fetch_def store_def Let_def split: if_splits prod.splits)
    done
qed

lemma decode_scanline_keeps:
  "decode_scanline pcxh bpl st = Ok st' \<Longrightarrow> length (buf st) = bpl
   \<Longrightarrow> length (buf st') = bpl \<and> pix st' = pix st"
  by (auto simp: decode_scanline_def read_raw_def Let_def SDL_ReadIO_def
      split: if_splits prod.splits dest: rle_loop_keeps)

lemma load_pcx_rows_failed:
  assumes "pcx_format pcxh = Some (bits, fmt)"
    and "SDL_CreateSurface (sint (Xmax pcxh) - sint (Xmin pcxh) + 1)
           (sint (Ymax pcxh) - sint (Ymin pcxh) + 1) fmt wd = (Some surface, wd1)"
    and "SDL_calloc (size_t (uint (NPlanes pcxh) * sint (BytesPerLine pcxh))) wd1 = (Some b, wd2)"
    and "decode_rows pcxh (sint (Xmax pcxh) - sint (Xmin pcxh) + 1)
           (uint (BitsPerPixel pcxh) * uint (NPlanes pcxh))
           (nat (size_t (uint (NPlanes pcxh) * sint (BytesPerLine pcxh))))
           (pitch surface) (h surface) 0 0
           \<lparr>src = s, buf = b, pix = pixels surface, count = 0, ch = 0\<rparr> = Err e st'"
  shows "load_pcx pcxh start s wd
       = Some (at_done (Some e) (Some (surface\<lparr>pixels := pix st'\<rparr>)) (Some (buf st'))
                 (src st') start wd2)"
  using assms by (simp add: load_pcx_def Let_def)

lemma corrupt_geometry_fails:
  assumes fmt: "BitsPerPixel pcxh = 8" "NPlanes pcxh = 3"
    and bpl: "0 \<le> sint (BytesPerLine pcxh)"
    and wide: "sint (BytesPerLine pcxh) < sint (Xmax pcxh) - sint (Xmin pcxh) + 1"
    and high: "0 < sint (Ymax pcxh) - sint (Ymin pcxh) + 1"
    and alloc: "surface_mem wd" "calloc_mem wd"
    and row1: "decode_scanline pcxh (nat (3 * sint (BytesPerLine pcxh)))
                 \<lparr>src = s, buf = replicate (nat (3 * sint (BytesPerLine pcxh))) 0,
                  pix = replicate (nat ((((sint (Xmax pcxh) - sint (Xmin pcxh) + 1) * 3 + 3) div 4) * 4
                                        * (sint (Ymax pcxh) - sint (Ymin pcxh) + 1))) 0,
                  count = 0, ch = 0\<rparr> = Ok st1"
  shows "\<exists>s' wd'. load_pcx pcxh start s wd = Some (None, s', wd')
           \<and> sdl_error wd' = ''decoding out of bounds (corrupt?)''"
proof -
  let ?width = "sint (Xmax pcxh) - sint (Xmin pcxh) + 1"
  let ?height = "sint (Ymax pcxh) - sint (Ymin pcxh) + 1"
  let ?B = "sint (BytesPerLine pcxh)"
  let ?p = "((?width * 3 + 3) div 4) * 4"
  let ?sf = "\<lparr>format = SDL_PIXELFORMAT_RGB24, w = ?width, h = ?height, pitch = ?p,
              pixels = replicate (nat (?p * ?height)) 0, palette = None\<rparr>"
  let ?wd1 = "wd\<lparr>live_surfaces := live_surfaces wd + 1\<rparr>"
  let ?wd2 = "?wd1\<lparr>live_buffers := live_buffers ?wd1 + 1\<rparr>"
  let ?st0 = "\<lparr>src = s, buf = replicate (nat (3 * ?B)) 0, pix = replicate (nat (?p * ?height)) 0,
               count = 0, ch = 0\<rparr>"
  have f: "pcx_format pcxh = Some (24, SDL_PIXELFORMAT_RGB24)"
    using fmt by (simp add: pcx_format_def)
  from bpl wide have wpos: "0 < ?width" by simp
  have sf: "SDL_CreateSurface ?width ?height SDL_PIXELFORMAT_RGB24 wd = (Some ?sf, ?wd1)"
    using wpos high alloc by (simp add: SDL_CreateSurface_def bytes_per_pixel_def Let_def)
  have "sint (BytesPerLine pcxh) < 2 ^ 15" using sint_lt[of "BytesPerLine pcxh"] by simp
  with bpl have sz: "size_t (uint (NPlanes pcxh) * ?B) = 3 * ?B"
    using fmt by (simp add: size_t_def)
  have ca: "SDL_calloc (3 * ?B) ?wd1 = (Some (replicate (nat (3 * ?B)) 0), ?wd2)"
    using alloc \<open>?B < 2 ^ 15\<close> by (simp add: SDL_calloc_def PTRDIFF_MAX_def)
  from decode_scanline_keeps[OF row1] have k: "length (buf st1) = nat (3 * ?B)"
    "pix st1 = replicate (nat (?p * ?height)) 0" by simp_all
  from wpos have ppos: "0 \<le> ?p" by simp
  with high have "?p * 1 \<le> ?p * ?height" by (intro mult_left_mono) simp_all
  with ppos k have rowb: "(0::int) \<le> 0" "0 + ?p \<le> int (length (pix st1))" by simp_all
  have viol: "\<not> (\<forall>p. 0 \<le> p \<and> p < 3
               \<longrightarrow> (\<forall>x. 0 \<le> x \<and> x < ?width
                     \<longrightarrow> p * ?B + x < int (nat (3 * ?B)) \<and> p + x * 3 < ?p))"
  proof
    assume a: "\<forall>p. 0 \<le> p \<and> p < 3
               \<longrightarrow> (\<forall>x. 0 \<le> x \<and> x < ?width
                     \<longrightarrow> p * ?B + x < int (nat (3 * ?B)) \<and> p + x * 3 < ?p)"
    have "2 * ?B + ?B < int (nat (3 * ?B)) \<and> 2 + ?B * 3 < ?p"
      using bpl wide by (intro a[rule_format, of 2 ?B]) simp_all
    with bpl show False by simp
  qed
  from reconstruct_row_rgb[OF fmt(2) bpl k(1) rowb, of ?width] viol
  obtain st' where rec: "reconstruct_row pcxh ?width 24 (nat (3 * ?B)) ?p 0 st1
      = Err ''decoding out of bounds (corrupt?)'' st'"
    by (simp only: if_False if_True) blast
  from high row1 rec
  have rows: "decode_rows pcxh ?width 24 (nat (3 * ?B)) ?p ?height 0 0 ?st0
      = Err ''decoding out of bounds (corrupt?)'' st'"
    by (subst decode_rows.simps) simp
  have ca': "SDL_calloc (size_t (uint (NPlanes pcxh) * ?B)) ?wd1
      = (Some (replicate (nat (3 * ?B)) 0), ?wd2)"
    unfolding sz by (rule ca)
  have rows': "decode_rows pcxh ?width (uint (BitsPerPixel pcxh) * uint (NPlanes pcxh))
           (nat (size_t (uint (NPlanes pcxh) * ?B))) (pitch ?sf) (h ?sf) 0 0
           \<lparr>src = s, buf = replicate (nat (3 * ?B)) 0, pix = pixels ?sf, count = 0, ch = 0\<rparr>
      = Err ''decoding out of bounds (corrupt?)'' st'"
    unfolding sz using rows fmt by simp
  have "load_pcx pcxh start s wd
      = Some (at_done (Some ''decoding out of bounds (corrupt?)'') (Some (?sf\<lparr>pixels := pix st'\<rparr>))
                (Some (buf st')) (src st') start ?wd2)"
    by (rule load_pcx_rows_failed[OF f sf ca' rows'])
  with at_done_failed[of "''decoding out of bounds (corrupt?)''" "Some (?sf\<lparr>pixels := pix st'\<rparr>)"
      "Some (buf st')" "src st'" start ?wd2]
  show ?thesis by simp
qed

lemma negative_bytes_per_line:
  assumes fmt: "BitsPerPixel pcxh = 8" "NPlanes pcxh = 3"
    and neg: "sint (BytesPerLine pcxh) < 0"
  shows "\<exists>s' wd'. load_pcx pcxh start s wd = Some (None, s', wd')"
proof -
  have f: "pcx_format pcxh = Some (24, SDL_PIXELFORMAT_RGB24)"
    using fmt by (simp add: pcx_format_def)
  let ?B = "sint (BytesPerLine pcxh)"
  have lo: "- (2 ^ 15) \<le> ?B" using sint_ge[of "BytesPerLine pcxh"] by simp
  have "(3 * ?B) mod 2 ^ 64 = (3 * ?B + 2 ^ 64) mod 2 ^ 64" by simp
  also from lo neg have "\<dots> = 3 * ?B + 2 ^ 64" by (intro mod_pos_pos_trivial) simp_all
  finally have "size_t (uint (NPlanes pcxh) * ?B) = 3 * ?B + 2 ^ 64"
    using fmt by (simp add: size_t_def)
  with lo have "size_t (uint (NPlanes pcxh) * ?B) > PTRDIFF_MAX"
    by (simp add: PTRDIFF_MAX_def)
  then have nc: "\<And>wd1 b wd2.
      SDL_calloc (size_t (uint (NPlanes pcxh) * sint (BytesPerLine pcxh))) wd1 \<noteq> (Some b, wd2)"
    by (simp add: SDL_calloc_def)
  show ?thesis
    by (simp add: load_pcx_def f Let_def at_done_def nc split: prod.splits option.splits)
qed

lemma rle_fetch_buf:
  "rle_fetch st = Ok st' \<Longrightarrow> buf st' = buf st \<and> pix st' = pix st"
  by (auto simp: rle_fetch_def Let_def split: if_splits prod.splits)

lemma rle_loop_no_fault:
  "length (buf st) = bpl \<Longrightarrow> rle_loop i bpl st \<noteq> Fault"
proof (induction i bpl st rule: rle_loop.induct)
  case (1 i bpl st)
  note unfold = rle_loop.simps[of i bpl st]
  show ?case
  proof (cases "i < bpl")
    case False
    then show ?thesis by (simp add: unfold)
  next
    case True
    show ?thesis
    proof (cases "rle_fetch st")
      case (Ok st1)
      with rle_fetch_buf[of st st1] "1.prems" have len: "length (buf st1) = bpl" by simp
      with True have st: "store (buf st1) (int i) (ch st1) = Some ((buf st1)[i := ch st1])"
        by (simp add: store_def)
      show ?thesis
      proof (cases "count st1 = INT_MIN")
        case min: True
        with True Ok st show ?thesis by (simp add: unfold)
      next
        case nomin: False
        from "1.IH"[OF True Ok st nomin] len True Ok st nomin show ?thesis
          by (simp add: unfold)
      qed
    next
      case (Err e st1)
      with True show ?thesis by (simp add: unfold)
    next
      case Fault
      then show ?thesis by (simp add: rle_fetch_def Let_def split: if_splits prod.splits)
    next
      case Overflow
      with True show ?thesis by (simp add: unfold)
    qed
  qed
qed

lemma decode_scanline_no_fault:
  "length (buf st) = bpl \<Longrightarrow> decode_scanline pcxh bpl st \<noteq> Fault"
  by (simp add: decode_scanline_def rle_loop_no_fault read_raw_def Let_def split: prod.splits)

lemma reconstruct_row_rgb_keeps:
  assumes np: "NPlanes pcxh = 3" and bpl: "0 \<le> sint (BytesPerLine pcxh)"
    and lenb: "length (buf st) = n"
    and row: "0 \<le> row" "row + pt \<le> int (length (pix st))"
    and ok: "reconstruct_row pcxh width 24 n pt row st = Ok st'"
  shows "buf st' = buf st \<and> length (pix st') = length (pix st)"
proof -
  have "int (length (buf st)) = int n" using lenb by simp
  from deinterlace_result[OF order_refl order_refl bpl this row, of 3 width] np ok
  show ?thesis
    by (auto simp: reconstruct_row_def split: if_splits result.splits)
qed

lemma reconstruct_row_rgb_no_fault:
  assumes np: "NPlanes pcxh = 3" and bpl: "0 \<le> sint (BytesPerLine pcxh)"
    and lenb: "length (buf st) = n"
    and row: "0 \<le> row" "row + pt \<le> int (length (pix st))"
  shows "reconstruct_row pcxh width 24 n pt row st \<noteq> Fault"
  using reconstruct_row_rgb[OF assms, of width] by (auto split: if_splits)

lemma decode_rows_rgb_no_fault:
  "NPlanes pcxh = 3 \<Longrightarrow> 0 \<le> sint (BytesPerLine pcxh)
     \<Longrightarrow> length (buf st) = n \<Longrightarrow> 0 \<le> pt \<Longrightarrow> 0 \<le> y \<Longrightarrow> row = y * pt
     \<Longrightarrow> int (length (pix st)) = pt * height
     \<Longrightarrow> decode_rows pcxh width 24 n pt height y row st \<noteq> Fault"
proof (induction pcxh width "24 :: int" n pt height y row st rule: decode_rows.induct)
  case (1 pcxh width n pt height y row st)
  note unfold = decode_rows.simps[of pcxh width 24 n pt height y row st]
  note np = "1.prems"(1) and bpl = "1.prems"(2) and lenb = "1.prems"(3) and pt = "1.prems"(4)
    and y = "1.prems"(5) and row = "1.prems"(6) and pix = "1.prems"(7)
  show ?case
  proof (cases "y < height")
    case False
    then show ?thesis by (simp add: unfold)
  next
    case True
    show ?thesis
    proof (cases "decode_scanline pcxh n st")
      case (Ok st1)
      from decode_scanline_keeps[OF Ok lenb] have k1: "length (buf st1) = n"
        "pix st1 = pix st" by simp_all
      from True pt y have "(y + 1) * pt \<le> height * pt" by (intro mult_right_mono) simp_all
      with pt y row pix k1 have rowb: "0 \<le> row" "row + pt \<le> int (length (pix st1))"
        by (simp_all add: algebra_simps)
      show ?thesis
      proof (cases "reconstruct_row pcxh width 24 n pt row st1")
        case ok2: (Ok st2)
        from reconstruct_row_rgb_keeps[OF np bpl k1(1) rowb ok2] k1 pix
        have k2: "length (buf st2) = n" "int (length (pix st2)) = pt * height" by simp_all
        from y row have "0 \<le> y + 1" "row + pt = (y + 1) * pt" by (simp_all add: algebra_simps)
        from "1.hyps"[OF True Ok ok2 np bpl k2(1) pt this k2(2)] True Ok ok2 show ?thesis
          by (simp add: unfold)
      next
        case (Err e st2)
        with True Ok show ?thesis by (simp add: unfold)
      next
        case Fault
        with reconstruct_row_rgb_no_fault[OF np bpl k1(1) rowb, of width] show ?thesis by simp
      next
        case Overflow
        with True Ok show ?thesis by (simp add: unfold)
      qed
    next
      case (Err e st1)
      with True show ?thesis by (simp add: unfold)
    next
      case Fault
      with decode_scanline_no_fault[OF lenb, of pcxh] show ?thesis by simp
    next
      case Overflow
      with True show ?thesis by (simp add: unfold)
    qed
  qed
qed

lemma SDL_CreateSurface_shape:
  assumes "SDL_CreateSurface width height f wd = (Some surface, wd1)"
  shows "0 \<le> pitch surface \<and> h surface = height
       \<and> int (length (pixels surface)) = pitch surface * height"
proof -
  from assms have "0 \<le> width" "0 \<le> height"
    and sf: "surface = \<lparr> format = f, w = width, h = height,
                pitch = ((width * bytes_per_pixel f + 3) div 4) * 4,
                pixels = (if width \<noteq> 0 \<and> height \<noteq> 0
                          then replicate (nat (((width * bytes_per_pixel f + 3) div 4) * 4 * height)) 0
                          else []),
                palette = None \<rparr>"
    by (auto simp: SDL_CreateSurface_def Let_def split: if_splits)
  have bp: "0 \<le> bytes_per_pixel f" by (simp add: bytes_per_pixel_def split: pixel_format.splits)
  with \<open>0 \<le> width\<close> have "0 \<le> width * bytes_per_pixel f" by simp
  then have p: "0 \<le> ((width * bytes_per_pixel f + 3) div 4) * 4"
    by (simp add: pos_imp_zdiv_nonneg_iff)
  have z: "width = 0 \<Longrightarrow> ((width * bytes_per_pixel f + 3) div 4) * 4 = 0" by simp
  from p \<open>0 \<le> height\<close> z show ?thesis
    unfolding sf by auto
qed

text \<open>
  Claim C4.  For a header of three planes of eight bits:

  (1) Reconstructing a row never leaves the arrays: given a scratch buffer of \<open>n\<close> bytes
  and a row of \<open>pt\<close> bytes inside the pixel storage, and a bytes-per-line that is not
  negative, the step does not fault, and it stops with \<open>decoding out of bounds
  (corrupt?)\<close> exactly when some plane \<open>p\<close> and column \<open>x\<close> would read at or behind index
  \<open>n\<close> of the buffer or write at or behind offset \<open>pt\<close> of the row.

  (2) A header whose width exceeds its bytes-per-line makes the decode return \<open>NULL\<close>
  with that error, as soon as the surface and the buffer are allocated and the first
  scanline is read.

  (3) A negative bytes-per-line never reaches the reconstruction: the decode returns
  \<open>NULL\<close> (the buffer of \<open>3 * BytesPerLine\<close> bytes, converted to \<open>size_t\<close>, cannot be
  allocated).

  (4) The row loop as a whole, started as the decoder starts it on the surface that
  \<open>SDL_CreateSurface\<close> returned and on a buffer of \<open>n\<close> bytes, never accesses an array
  out of range, whatever the stream holds.
\<close>

theorem deinterlace_bounds_checked:
  assumes fmt: "BitsPerPixel pcxh = 8" "NPlanes pcxh = 3"
  shows "(0 \<le> sint (BytesPerLine pcxh) \<and> length (buf st) = n
            \<and> 0 \<le> row \<and> row + pt \<le> int (length (pix st))
          \<longrightarrow> reconstruct_row pcxh width 24 n pt row st \<noteq> Fault
              \<and> ((\<exists>st'. reconstruct_row pcxh width 24 n pt row st
                          = Err ''decoding out of bounds (corrupt?)'' st')
                  \<longleftrightarrow> (\<exists>p x. 0 \<le> p \<and> p < 3 \<and> 0 \<le> x \<and> x < width
                          \<and> (int n \<le> p * sint (BytesPerLine pcxh) + x \<or> pt \<le> p + x * 3))))
       \<and> (0 \<le> sint (BytesPerLine pcxh)
            \<and> sint (BytesPerLine pcxh) < sint (Xmax pcxh) - sint (Xmin pcxh) + 1
            \<and> 0 < sint (Ymax pcxh) - sint (Ymin pcxh) + 1
            \<and> surface_mem wd \<and> calloc_mem wd
            \<and> decode_scanline pcxh (nat (3 * sint (BytesPerLine pcxh)))
                 \<lparr>src = s, buf = replicate (nat (3 * sint (BytesPerLine pcxh))) 0,
                  pix = replicate (nat ((((sint (Xmax pcxh) - sint (Xmin pcxh) + 1) * 3 + 3) div 4) * 4
                                        * (sint (Ymax pcxh) - sint (Ymin pcxh) + 1))) 0,
                  count = 0, ch = 0\<rparr> = Ok st1
          \<longrightarrow> (\<exists>s' wd'. load_pcx pcxh start s wd = Some (None, s', wd')
                  \<and> sdl_error wd' = ''decoding out of bounds (corrupt?)''))
       \<and> (sint (BytesPerLine pcxh) < 0
          \<longrightarrow> (\<exists>s' wd'. load_pcx pcxh start s wd = Some (None, s', wd')))
       \<and> (0 \<le> sint (BytesPerLine pcxh)
            \<and> SDL_CreateSurface (sint (Xmax pcxh) - sint (Xmin pcxh) + 1)
                  (sint (Ymax pcxh) - sint (Ymin pcxh) + 1) SDL_PIXELFORMAT_RGB24 wd
                = (Some surface, wd1)
            \<and> length b = n
          \<longrightarrow> decode_rows pcxh (sint (Xmax pcxh) - sint (Xmin pcxh) + 1) 24 n
                (pitch surface) (h surface) 0 0
                \<lparr>src = s, buf = b, pix = pixels surface, count = 0, ch = 0\<rparr> \<noteq> Fault)"
proof -
  let ?r = "reconstruct_row pcxh width 24 n pt row st"
  let ?V = "\<exists>p x. 0 \<le> p \<and> p < 3 \<and> 0 \<le> x \<and> x < width
                          \<and> (int n \<le> p * sint (BytesPerLine pcxh) + x \<or> pt \<le> p + x * 3)"
  have a: "?r \<noteq> Fault \<and> ((\<exists>st'. ?r = Err ''decoding out of bounds (corrupt?)'' st') \<longleftrightarrow> ?V)"
    if pre: "0 \<le> sint (BytesPerLine pcxh)" "length (buf st) = n" "0 \<le> row"
      "row + pt \<le> int (length (pix st))"
  proof (cases ?V)
    case True
    then have "\<not> (\<forall>p. 0 \<le> p \<and> p < 3
               \<longrightarrow> (\<forall>x. 0 \<le> x \<and> x < width
                     \<longrightarrow> p * sint (BytesPerLine pcxh) + x < int n \<and> p + x * 3 < pt))"
      by (simp add: not_less)
    with reconstruct_row_rgb[OF fmt(2) pre, of width]
    have "\<exists>st'. ?r = Err ''decoding out of bounds (corrupt?)'' st'"
      by (simp only: if_False if_True)
    with True show ?thesis by auto
  next
    case False
    then have "\<forall>p. 0 \<le> p \<and> p < 3
               \<longrightarrow> (\<forall>x. 0 \<le> x \<and> x < width
                     \<longrightarrow> p * sint (BytesPerLine pcxh) + x < int n \<and> p + x * 3 < pt)"
      by (simp add: not_less[symmetric]) blast
    with reconstruct_row_rgb[OF fmt(2) pre, of width]
    have "\<exists>st'. ?r = Ok st'"
      by (simp only: if_False if_True)
    with False show ?thesis by auto
  qed
  have d: "decode_rows pcxh (sint (Xmax pcxh) - sint (Xmin pcxh) + 1) 24 n
                (pitch surface) (h surface) 0 0
                \<lparr>src = s, buf = b, pix = pixels surface, count = 0, ch = 0\<rparr> \<noteq> Fault"
    if pre: "0 \<le> sint (BytesPerLine pcxh)"
      "SDL_CreateSurface (sint (Xmax pcxh) - sint (Xmin pcxh) + 1)
                  (sint (Ymax pcxh) - sint (Ymin pcxh) + 1) SDL_PIXELFORMAT_RGB24 wd
                = (Some surface, wd1)" "length b = n"
  proof -
    from SDL_CreateSurface_shape[OF pre(2)]
    have sh: "0 \<le> pitch surface" "h surface = sint (Ymax pcxh) - sint (Ymin pcxh) + 1"
      "int (length (pixels surface)) = pitch surface * h surface" by simp_all
    show ?thesis
      by (rule decode_rows_rgb_no_fault[OF fmt(2) pre(1)]) (simp_all add: pre(3) sh)
  qed
  from a d corrupt_geometry_fails[OF fmt, of wd s st1 start]
    negative_bytes_per_line[OF fmt, of start s wd]
  show ?thesis by blast
qed

theorem deinterlace_bounds_checked_witness:
  "reconstruct_row (read_header (header_bytes 0 8 0 0 2 0 3 2)) 3 24 6 12 0
      \<lparr>src = \<lparr>data = [], pos = 0\<rparr>, buf = [1, 2, 3, 4, 5, 6],
       pix = [0, 0, 0, 0, 0, 0, 0, 0, 0, 0, 0, 0], count = 0, ch = 0\<rparr> \<noteq> Fault
   \<and> (\<exists>st'. reconstruct_row (read_header (header_bytes 0 8 0 0 2 0 3 2)) 3 24 6 12 0
              \<lparr>src = \<lparr>data = [], pos = 0\<rparr>, buf = [1, 2, 3, 4, 5, 6],
               pix = [0, 0, 0, 0, 0, 0, 0, 0, 0, 0, 0, 0], count = 0, ch = 0\<rparr>
            = Err ''decoding out of bounds (corrupt?)'' st')
   \<and> (\<exists>s' wd'. load_pcx (read_header (header_bytes 0 8 0 0 2 0 3 2)) 0
                  \<lparr>data = header_bytes 0 8 0 0 2 0 3 2 @ [1, 2, 3, 4, 5, 6], pos = 128\<rparr> world0
                = Some (None, s', wd')
            \<and> sdl_error wd' = ''decoding out of bounds (corrupt?)'')
   \<and> (\<exists>s' wd'. load_pcx (read_header (header_bytes 0 8 0 0 2 0 3 (- 1))) 0
                  \<lparr>data = header_bytes 0 8 0 0 2 0 3 (- 1) @ [1, 2, 3, 4, 5, 6], pos = 128\<rparr> world0
                = Some (None, s', wd'))
   \<and> decode_rows (read_header (header_bytes 0 8 0 0 2 0 3 2)) 3 24 6 12 1 0 0
        \<lparr>src = \<lparr>data = header_bytes 0 8 0 0 2 0 3 2 @ [1, 2, 3, 4, 5, 6], pos = 128\<rparr>,
         buf = [0, 0, 0, 0, 0, 0], pix = [0, 0, 0, 0, 0, 0, 0, 0, 0, 0, 0, 0],
         count = 0, ch = 0\<rparr> \<noteq> Fault"
proof -
  let ?h = "read_header (header_bytes 0 8 0 0 2 0 3 2)"
  let ?g = "read_header (header_bytes 0 8 0 0 2 0 3 (- 1))"
  let ?st = "\<lparr>src = \<lparr>data = [], pos = 0\<rparr>, buf = [1, 2, 3, 4, 5, 6],
       pix = [0, 0, 0, 0, 0, 0, 0, 0, 0, 0, 0, 0], count = 0, ch = 0\<rparr>"
  let ?s = "\<lparr>data = header_bytes 0 8 0 0 2 0 3 2 @ [1, 2, 3, 4, 5, 6], pos = 128\<rparr>"
  let ?t = "\<lparr>data = header_bytes 0 8 0 0 2 0 3 (- 1) @ [1, 2, 3, 4, 5, 6], pos = 128\<rparr>"
  let ?st1 = "\<lparr>src = \<lparr>data = header_bytes 0 8 0 0 2 0 3 2 @ [1, 2, 3, 4, 5, 6], pos = 134\<rparr>,
       buf = [1, 2, 3, 4, 5, 6], pix = [0, 0, 0, 0, 0, 0, 0, 0, 0, 0, 0, 0], count = 0, ch = 0\<rparr>"
  have fh: "BitsPerPixel ?h = 8" "NPlanes ?h = 3" by code_simp+
  have fg: "BitsPerPixel ?g = 8" "NPlanes ?g = 3" by code_simp+
  have bh: "0 \<le> sint (BytesPerLine ?h)" "sint (BytesPerLine ?h) = 2" by code_simp+
  have bg: "sint (BytesPerLine ?g) < 0" by code_simp
  have pre: "0 \<le> sint (BytesPerLine ?h) \<and> length (buf ?st) = 6
            \<and> (0::int) \<le> 0 \<and> 0 + 12 \<le> int (length (pix ?st))"
    using bh(1) by simp
  have viol: "\<exists>p x. 0 \<le> p \<and> p < 3 \<and> 0 \<le> x \<and> x < (3::int)
                \<and> (int 6 \<le> p * sint (BytesPerLine ?h) + x \<or> (12::int) \<le> p + x * 3)"
    unfolding bh(2) by (intro exI[of _ 2]) simp
  have geo: "0 \<le> sint (BytesPerLine ?h)
            \<and> sint (BytesPerLine ?h) < sint (Xmax ?h) - sint (Xmin ?h) + 1
            \<and> 0 < sint (Ymax ?h) - sint (Ymin ?h) + 1
            \<and> surface_mem world0 \<and> calloc_mem world0" by code_simp
  have row1: "decode_scanline ?h (nat (3 * sint (BytesPerLine ?h)))
                 \<lparr>src = ?s, buf = replicate (nat (3 * sint (BytesPerLine ?h))) 0,
                  pix = replicate (nat ((((sint (Xmax ?h) - sint (Xmin ?h) + 1) * 3 + 3) div 4) * 4
                                        * (sint (Ymax ?h) - sint (Ymin ?h) + 1))) 0,
                  count = 0, ch = 0\<rparr> = Ok ?st1" by code_simp
  let ?sf = "\<lparr>format = SDL_PIXELFORMAT_RGB24, w = 3, h = 1, pitch = 12,
              pixels = [0, 0, 0, 0, 0, 0, 0, 0, 0, 0, 0, 0], palette = None\<rparr>"
  have wh: "sint (Xmax ?h) - sint (Xmin ?h) + 1 = 3" by code_simp
  have sf: "SDL_CreateSurface (sint (Xmax ?h) - sint (Xmin ?h) + 1)
              (sint (Ymax ?h) - sint (Ymin ?h) + 1) SDL_PIXELFORMAT_RGB24 world0
            = (Some ?sf, world0\<lparr>live_surfaces := 1\<rparr>)" by code_simp
  note inst = deinterlace_bounds_checked[OF fh, where st = ?st and n = 6 and row = 0
      and pt = 12 and width = 3 and wd = world0 and s = ?s and ?st1.0 = ?st1 and start = 0
      and surface = ?sf and ?wd1.0 = "world0\<lparr>live_surfaces := 1\<rparr>"
      and b = "[0, 0, 0, 0, 0, 0]"]
  from inst bh(1) sf
  have e: "decode_rows ?h (sint (Xmax ?h) - sint (Xmin ?h) + 1) 24 6 (pitch ?sf) (h ?sf) 0 0
        \<lparr>src = ?s, buf = [0, 0, 0, 0, 0, 0], pix = pixels ?sf, count = 0, ch = 0\<rparr> \<noteq> Fault"
    by simp
  from inst pre viol geo row1
  have a: "reconstruct_row ?h 3 24 6 12 0 ?st \<noteq> Fault"
    and b: "\<exists>st'. reconstruct_row ?h 3 24 6 12 0 ?st = Err ''decoding out of bounds (corrupt?)'' st'"
    and c: "\<exists>s' wd'. load_pcx ?h 0 ?s world0 = Some (None, s', wd')
            \<and> sdl_error wd' = ''decoding out of bounds (corrupt?)''"
    by blast+
  from deinterlace_bounds_checked[OF fg, where s = ?t and wd = world0 and start = 0] bg
  have d: "\<exists>s' wd'. load_pcx ?g 0 ?t world0 = Some (None, s', wd')" by blast
  from e have e': "decode_rows ?h 3 24 6 12 1 0 0
        \<lparr>src = ?s, buf = [0, 0, 0, 0, 0, 0], pix = [0, 0, 0, 0, 0, 0, 0, 0, 0, 0, 0, 0],
         count = 0, ch = 0\<rparr> \<noteq> Fault"
    unfolding wh by simp
  from a b c d e' show ?thesis by blast
qed

subsection \<open>Failing decodes, the cursor and the allocations\<close>

text \<open>The decoder only reads the stream: its bytes stay what they were.\<close>

lemma rle_fetch_data:
  "case rle_fetch st of
     Ok st' \<Rightarrow> data (src st') = data (src st)
   | Err e st' \<Rightarrow> data (src st') = data (src st)
   | Fault \<Rightarrow> True
   | Overflow \<Rightarrow> True"
  by (simp add: rle_fetch_def SDL_ReadIO_def Let_def)

lemma rle_loop_data:
  "case rle_loop i bpl st of
     Ok st' \<Rightarrow> data (src st') = data (src st)
   | Err e st' \<Rightarrow> data (src st') = data (src st)
   | Fault \<Rightarrow> True
   | Overflow \<Rightarrow> True"
proof (induction i bpl st rule: rle_loop.induct)
  case (1 i bpl st)
  note unfold = rle_loop.simps[of i bpl st]
  show ?case
  proof (cases "i < bpl")
    case False
    then show ?thesis by (simp add: unfold)
  next
    case True
    show ?thesis
    proof (cases "rle_fetch st")
      case (Ok st1)
      with rle_fetch_data[of st] have d1: "data (src st1) = data (src st)" by simp
      show ?thesis
      proof (cases "store (buf st1) (int i) (ch st1)")
        case None
        with True Ok show ?thesis by (simp add: unfold)
      next
        case (Some b)
        show ?thesis
        proof (cases "count st1 = INT_MIN")
          case min: True
          with True Ok Some show ?thesis by (simp add: unfold)
        next
          case nomin: False
          from "1.IH"[OF True Ok Some nomin] d1 True Ok Some nomin show ?thesis
            by (simp add: unfold split: result.splits)
        qed
      qed
    next
      case (Err e st1)
      with rle_fetch_data[of st] True show ?thesis by (simp add: unfold)
    next
      case Fault
      with True show ?thesis by (simp add: unfold)
    next
      case Overflow
      with True show ?thesis by (simp add: unfold)
    qed
  qed
qed

lemma read_raw_data:
  "case read_raw bpl st of
     Ok st' \<Rightarrow> data (src st') = data (src st)
   | Err e st' \<Rightarrow> data (src st') = data (src st)
   | Fault \<Rightarrow> True
   | Overflow \<Rightarrow> True"
  by (simp add: read_raw_def SDL_ReadIO_def Let_def)

lemma reconstruct_row_src:
  "case reconstruct_row pcxh width src_bits bpl pt row st of
     Ok st' \<Rightarrow> src st' = src st
   | Err e st' \<Rightarrow> src st' = src st
   | Fault \<Rightarrow> True
   | Overflow \<Rightarrow> True"
  by (simp add: reconstruct_row_def split: option.splits result.splits)

lemma decode_rows_data:
  "case decode_rows pcxh width src_bits bpl pt height y row st of
     Ok st' \<Rightarrow> data (src st') = data (src st)
   | Err e st' \<Rightarrow> data (src st') = data (src st)
   | Fault \<Rightarrow> True
   | Overflow \<Rightarrow> True"
proof (induction pcxh width src_bits bpl pt height y row st rule: decode_rows.induct)
  case (1 pcxh width src_bits bpl pt height y row st)
  have sc: "case decode_scanline pcxh bpl st of
     Ok st' \<Rightarrow> data (src st') = data (src st)
   | Err e st' \<Rightarrow> data (src st') = data (src st)
   | Fault \<Rightarrow> True
   | Overflow \<Rightarrow> True"
    using rle_loop_data[where i = 0 and bpl = bpl and st = st] read_raw_data[where bpl = bpl and st = st]
    by (simp add: decode_scanline_def)
  note unfold = decode_rows.simps[of pcxh width src_bits bpl pt height y row st]
  show ?case
  proof (cases "y < height")
    case False
    then show ?thesis by (simp add: unfold)
  next
    case True
    show ?thesis
    proof (cases "decode_scanline pcxh bpl st")
      case (Ok st1)
      with sc have d1: "data (src st1) = data (src st)" by simp
      note rr = reconstruct_row_src[where pcxh = pcxh and width = width and src_bits = src_bits
          and bpl = bpl and pt = pt and row = row and st = st1]
      show ?thesis
      proof (cases "reconstruct_row pcxh width src_bits bpl pt row st1")
        case ok2: (Ok st2)
        with rr have "src st2 = src st1" by simp
        with "1.IH"[OF True Ok ok2] d1 True Ok ok2 show ?thesis
          by (simp add: unfold split: result.splits)
      next
        case (Err e st2)
        with rr d1 True Ok show ?thesis by (simp add: unfold)
      next
        case Fault
        with True Ok show ?thesis by (simp add: unfold)
      next
        case Overflow
        with True Ok show ?thesis by (simp add: unfold)
      qed
    next
      case (Err e st1)
      with sc True show ?thesis by (simp add: unfold)
    next
      case Fault
      with True show ?thesis by (simp add: unfold)
    next
      case Overflow
      with True show ?thesis by (simp add: unfold)
    qed
  qed
qed

lemma find_palette_data: "data (find_palette s) = data s"
proof (induction s rule: find_palette.induct)
  case (1 s)
  then show ?case
    by (subst find_palette.simps) (auto simp: SDL_ReadIO_def SDL_SeekIO_def Let_def)
qed

lemma pcx_palette_data:
  "pcx_palette pcxh src_bits surface s wd = (error, sf, s', wd')
   \<Longrightarrow> data s' = data s \<and> live_surfaces wd' = live_surfaces wd
       \<and> live_buffers wd' = live_buffers wd"
  by (auto simp: pcx_palette_def SDL_CreateSurfacePalette_def SDL_SetError_def SDL_ReadIO_def
      Let_def find_palette_data split: if_splits prod.splits option.splits)

lemma seek_set_data:
  "data s2 = data s \<Longrightarrow> SDL_SeekIO s2 off SDL_IO_SEEK_SET = SDL_SeekIO s off SDL_IO_SEEK_SET"
  by (cases s, cases s2) (simp add: SDL_SeekIO_def)

lemma at_done_Some:
  "at_done (Some e) sf bf s2 start wd2
   = (None, Some (SDL_SeekIO s2 start SDL_IO_SEEK_SET),
      SDL_SetError e (case sf of None \<Rightarrow> SDL_free bf wd2
                       | Some x \<Rightarrow> SDL_DestroySurface x (SDL_free bf wd2)))"
  by (simp add: at_done_def Let_def)

lemma load_pcx_calloc_failed:
  assumes "pcx_format pcxh = Some (bits, fmt)"
    and "SDL_CreateSurface (sint (Xmax pcxh) - sint (Xmin pcxh) + 1)
           (sint (Ymax pcxh) - sint (Ymin pcxh) + 1) fmt wd = (Some surface, wd1)"
    and "SDL_calloc (size_t (uint (NPlanes pcxh) * sint (BytesPerLine pcxh))) wd1 = (None, wd2)"
  shows "load_pcx pcxh start s wd
       = Some (at_done (Some ''Out of memory'') (Some surface) None s start wd2)"
  using assms by (simp add: load_pcx_def Let_def)

lemma load_pcx_rows_done:
  assumes "pcx_format pcxh = Some (bits, fmt)"
    and "SDL_CreateSurface (sint (Xmax pcxh) - sint (Xmin pcxh) + 1)
           (sint (Ymax pcxh) - sint (Ymin pcxh) + 1) fmt wd = (Some surface, wd1)"
    and "SDL_calloc (size_t (uint (NPlanes pcxh) * sint (BytesPerLine pcxh))) wd1 = (Some b, wd2)"
    and "decode_rows pcxh (sint (Xmax pcxh) - sint (Xmin pcxh) + 1)
           (uint (BitsPerPixel pcxh) * uint (NPlanes pcxh))
           (nat (size_t (uint (NPlanes pcxh) * sint (BytesPerLine pcxh))))
           (pitch surface) (h surface) 0 0
           \<lparr>src = s, buf = b, pix = pixels surface, count = 0, ch = 0\<rparr> = Ok st"
  shows "load_pcx pcxh start s wd
       = (if bits = 8
          then (case pcx_palette pcxh (uint (BitsPerPixel pcxh) * uint (NPlanes pcxh))
                      (surface\<lparr>pixels := pix st\<rparr>) (src st) wd2 of
                  (error, surface2, s2, wd3) \<Rightarrow>
                    Some (at_done error (Some surface2) (Some (buf st)) s2 start wd3))
          else Some (at_done None (Some (surface\<lparr>pixels := pix st\<rparr>)) (Some (buf st))
                       (src st) start wd2))"
  using assms by (simp add: load_pcx_def Let_def)

lemma load_pcx_rows_fault:
  assumes "pcx_format pcxh = Some (bits, fmt)"
    and "SDL_CreateSurface (sint (Xmax pcxh) - sint (Xmin pcxh) + 1)
           (sint (Ymax pcxh) - sint (Ymin pcxh) + 1) fmt wd = (Some surface, wd1)"
    and "SDL_calloc (size_t (uint (NPlanes pcxh) * sint (BytesPerLine pcxh))) wd1 = (Some b, wd2)"
    and "decode_rows pcxh (sint (Xmax pcxh) - sint (Xmin pcxh) + 1)
           (uint (BitsPerPixel pcxh) * uint (NPlanes pcxh))
           (nat (size_t (uint (NPlanes pcxh) * sint (BytesPerLine pcxh))))
           (pitch surface) (h surface) 0 0
           \<lparr>src = s, buf = b, pix = pixels surface, count = 0, ch = 0\<rparr> = Fault"
  shows "load_pcx pcxh start s wd = None"
  using assms by (simp add: load_pcx_def Let_def)

text \<open>
  A decode that returns \<open>NULL\<close>, other than through a failure of \<open>SDL_CreateSurface\<close>
  (the geometry is not negative and the surface can be allocated): the cursor is back
  where it was, and as many surfaces and buffers are live as before the call.
\<close>

lemma load_pcx_rows_overflow:
  assumes "pcx_format pcxh = Some (bits, fmt)"
    and "SDL_CreateSurface (sint (Xmax pcxh) - sint (Xmin pcxh) + 1)
           (sint (Ymax pcxh) - sint (Ymin pcxh) + 1) fmt wd = (Some surface, wd1)"
    and "SDL_calloc (size_t (uint (NPlanes pcxh) * sint (BytesPerLine pcxh))) wd1 = (Some b, wd2)"
    and "decode_rows pcxh (sint (Xmax pcxh) - sint (Xmin pcxh) + 1)
           (uint (BitsPerPixel pcxh) * uint (NPlanes pcxh))
           (nat (size_t (uint (NPlanes pcxh) * sint (BytesPerLine pcxh))))
           (pitch surface) (h surface) 0 0
           \<lparr>src = s, buf = b, pix = pixels surface, count = 0, ch = 0\<rparr> = Overflow"
  shows "load_pcx pcxh start s wd = None"
  using assms by (simp add: load_pcx_def Let_def)

lemma load_pcx_failure_restores:
  assumes r: "load_pcx pcxh start s wd = Some (None, s', wd')"
    and geo: "0 \<le> sint (Xmax pcxh) - sint (Xmin pcxh) + 1"
      "0 \<le> sint (Ymax pcxh) - sint (Ymin pcxh) + 1" "surface_mem wd"
  shows "s' = Some (SDL_SeekIO s start SDL_IO_SEEK_SET)
       \<and> live_surfaces wd' = live_surfaces wd \<and> live_buffers wd' = live_buffers wd"
proof (cases "pcx_format pcxh")
  case None
  with r show ?thesis
    by (auto simp: load_pcx_def Let_def at_done_Some SDL_free_def SDL_SetError_def)
next
  case (Some bf)
  obtain bits fmt where "bf = (bits, fmt)" by (cases bf)
  with Some have f: "pcx_format pcxh = Some (bits, fmt)" by simp
  let ?W = "sint (Xmax pcxh) - sint (Xmin pcxh) + 1"
  let ?H = "sint (Ymax pcxh) - sint (Ymin pcxh) + 1"
  let ?n = "size_t (uint (NPlanes pcxh) * sint (BytesPerLine pcxh))"
  let ?wd1 = "wd\<lparr>live_surfaces := live_surfaces wd + 1\<rparr>"
  from geo obtain sf where sf: "SDL_CreateSurface ?W ?H fmt wd = (Some sf, ?wd1)"
    by (simp add: SDL_CreateSurface_def Let_def)
  show ?thesis
  proof (cases "fst (SDL_calloc ?n ?wd1)")
    case None
    then have ca: "SDL_calloc ?n ?wd1 = (None, ?wd1)"
      by (auto simp: SDL_calloc_def split: if_splits)
    from r[unfolded load_pcx_calloc_failed[OF f sf ca]] show ?thesis
      by (auto simp: at_done_Some SDL_free_def SDL_SetError_def SDL_DestroySurface_def)
  next
    case (Some b)
    let ?wd2 = "?wd1\<lparr>live_buffers := live_buffers ?wd1 + 1\<rparr>"
    from Some have ca: "SDL_calloc ?n ?wd1 = (Some b, ?wd2)"
      by (auto simp: SDL_calloc_def split: if_splits)
    let ?st0 = "\<lparr>src = s, buf = b, pix = pixels sf, count = 0, ch = 0\<rparr>"
    let ?rows = "decode_rows pcxh ?W (uint (BitsPerPixel pcxh) * uint (NPlanes pcxh)) (nat ?n)
                   (pitch sf) (h sf) 0 0 ?st0"
    note dd = decode_rows_data[where pcxh = pcxh and width = ?W
        and src_bits = "uint (BitsPerPixel pcxh) * uint (NPlanes pcxh)" and bpl = "nat ?n"
        and pt = "pitch sf" and height = "h sf" and y = 0 and row = 0 and st = ?st0]
    show ?thesis
    proof (cases ?rows)
      case (Ok st)
      with dd have d: "data (src st) = data s" by simp
      note r' = r[unfolded load_pcx_rows_done[OF f sf ca Ok]]
      show ?thesis
      proof (cases "bits = 8")
        case True
        obtain error sf2 s2 wd3 where
          pp: "pcx_palette pcxh (uint (BitsPerPixel pcxh) * uint (NPlanes pcxh))
                 (sf\<lparr>pixels := pix st\<rparr>) (src st) ?wd2 = (error, sf2, s2, wd3)"
          by (metis prod_cases4)
        from pcx_palette_data[OF pp] d have d2: "data s2 = data s"
          "live_surfaces wd3 = live_surfaces ?wd2" "live_buffers wd3 = live_buffers ?wd2"
          by simp_all
        from r' True have a: "at_done error (Some sf2) (Some (buf st)) s2 start wd3 = (None, s', wd')"
          unfolding pp by simp
        then obtain e where "error = Some e" by (cases error) (simp_all add: at_done_def Let_def)
        with a d2 show ?thesis
          by (auto simp: at_done_Some SDL_free_def SDL_SetError_def SDL_DestroySurface_def
              seek_set_data[OF d2(1)])
      next
        case False
        with r' show ?thesis by (simp add: at_done_def Let_def)
      qed
    next
      case (Err e st)
      with dd have d: "data (src st) = data s" by simp
      from r[unfolded load_pcx_rows_failed[OF f sf ca Err]] show ?thesis
        by (auto simp: at_done_Some SDL_free_def SDL_SetError_def SDL_DestroySurface_def
            seek_set_data[OF d])
    next
      case Fault
      from r[unfolded load_pcx_rows_fault[OF f sf ca Fault]] show ?thesis by simp
    next
      case Overflow
      from r[unfolded load_pcx_rows_overflow[OF f sf ca Overflow]] show ?thesis by simp
    qed
  qed
qed

lemma LoadPCX_failure_restores:
  assumes ok: "stream_ok s"
    and r: "IMG_LoadPCX_IO (Some s) wd = Some (None, s', wd')"
    and geo: "sizeof_pcxh \<le> length (data s) - pos s \<longrightarrow>
                (let pcxh = read_header (take sizeof_pcxh (drop (pos s) (data s)))
                 in 0 \<le> sint (Xmax pcxh) - sint (Xmin pcxh) + 1
                    \<and> 0 \<le> sint (Ymax pcxh) - sint (Ymin pcxh) + 1)"
      "surface_mem wd"
  shows "s' = Some s \<and> live_surfaces wd' = live_surfaces wd \<and> live_buffers wd' = live_buffers wd"
proof (cases "sizeof_pcxh \<le> length (data s) - pos s")
  case True
  let ?s1 = "s\<lparr>pos := pos s + sizeof_pcxh\<rparr>"
  from True r have "load_pcx (read_header (take sizeof_pcxh (drop (pos s) (data s))))
      (int (pos s)) ?s1 wd = Some (None, s', wd')"
    by (simp add: LoadPCX_header)
  from load_pcx_failure_restores[OF this] geo True
  have "s' = Some (SDL_SeekIO ?s1 (int (pos s)) SDL_IO_SEEK_SET)
       \<and> live_surfaces wd' = live_surfaces wd \<and> live_buffers wd' = live_buffers wd"
    by (simp add: Let_def)
  moreover from ok have "SDL_SeekIO ?s1 (int (pos s)) SDL_IO_SEEK_SET = s"
    by (simp add: SDL_SeekIO_def stream_ok_def)
  ultimately show ?thesis by simp
next
  case False
  with r ok show ?thesis
    by (auto simp: IMG_LoadPCX_IO_def SDL_ReadIO_def SDL_TellIO_def Let_def at_done_Some
        SDL_free_def SDL_SetError_def SDL_SeekIO_def stream_ok_def sizeof_pcxh_def)
qed

text \<open>
  The path that does not seek back: the format is supported and \<open>SDL_CreateSurface\<close>
  fails.  The cursor is left behind the header.
\<close>

lemma LoadPCX_surface_failure:
  assumes hdr: "sizeof_pcxh \<le> length (data s) - pos s"
    and fmt: "pcx_format (read_header (take sizeof_pcxh (drop (pos s) (data s)))) = Some (bits, f)"
    and fail: "SDL_CreateSurface
                 (sint (Xmax (read_header (take sizeof_pcxh (drop (pos s) (data s)))))
                    - sint (Xmin (read_header (take sizeof_pcxh (drop (pos s) (data s))))) + 1)
                 (sint (Ymax (read_header (take sizeof_pcxh (drop (pos s) (data s)))))
                    - sint (Ymin (read_header (take sizeof_pcxh (drop (pos s) (data s))))) + 1)
                 f wd = (None, wd1)"
  shows "IMG_LoadPCX_IO (Some s) wd = Some (None, Some (s\<lparr>pos := pos s + sizeof_pcxh\<rparr>), wd1)"
  using fmt fail
  by (simp add: LoadPCX_header[OF hdr] load_pcx_def Let_def at_done_def SDL_free_def)

text \<open>
  Claim C3.  Every failure for which the decoder sets \<open>error\<close> puts the cursor back
  and leaves no surface and no buffer behind (\<open>LoadPCX_failure_restores\<close>).  The failure
  of \<open>SDL_CreateSurface\<close> is the exception (\<open>LoadPCX_surface_failure\<close>): the decoder
  jumps to \<open>done\<close> with \<open>error\<close> unset and returns \<open>NULL\<close> without seeking back.  A
  header with \<open>Xmin = 2\<close> and \<open>Xmax = 0\<close> has width \<open>-1\<close>, which \<open>SDL_CreateSurface\<close>
  refuses: the call returns \<open>NULL\<close> and the cursor stays at 128, behind the header.
\<close>

theorem surface_failure_leaves_cursor:
  "outcome (IMG_LoadPCX_IO (Some \<lparr>data = header_bytes 1 8 2 0 0 0 1 1, pos = 0\<rparr>) world0)
     = Some (None, Some 128, ''Parameter 'width' is invalid'', 0, 0)"
  by code_simp

end
